theory Spec2Isabelle
  imports Main
begin

section \<open>Python values: exceptions and numpy arrays\<close>

text \<open>
  The exceptions the methods of \<open>KernelDMD\<close> can end with. \<open>Unmodelled\<close> is not a
  Python exception: it marks the places where the outcome is decided inside the wrapped
  library on a value the methods were not written for (a contexts object handed back in
  as raw data, raw data handed to the inherited \<open>fit\<close>). No theorem below reads anything
  into it.
\<close>

datatype error =
  IndexError | ValueError | TypeError | AttributeError | NotImplementedError | Unmodelled

text \<open>
  A numpy array is its shape and its elements in row-major (C) order. The element type
  is left open: the class only moves elements around.
\<close>

record 'a ndarray =
  shape :: "nat list"
  flat :: "'a list"

definition ndim :: "'a ndarray \<Rightarrow> nat" where
  "ndim a = length (shape a)"

definition wf_array :: "'a ndarray \<Rightarrow> bool" where
  "wf_array a \<longleftrightarrow> length (flat a) = prod_list (shape a)"

text \<open>\<open>a[np.newaxis, ...]\<close>: a new leading axis of length 1.\<close>

definition newaxis :: "'a ndarray \<Rightarrow> 'a ndarray" where
  "newaxis a = a\<lparr>shape := 1 # shape a\<rparr>"

text \<open>\<open>chunks k sz xs\<close>: the first \<open>k\<close> consecutive blocks of \<open>sz\<close> elements of \<open>xs\<close>.\<close>

fun chunks :: "nat \<Rightarrow> nat \<Rightarrow> 'a list \<Rightarrow> 'a list list" where
  "chunks 0 sz xs = []"
| "chunks (Suc k) sz xs = take sz xs # chunks k sz (drop sz xs)"

text \<open>The entries of an array along axis 0, each flattened.\<close>

definition rows :: "'a ndarray \<Rightarrow> 'a list list" where
  "rows a = (case shape a of [] \<Rightarrow> [] | d # ds \<Rightarrow> chunks d (prod_list ds) (flat a))"

text \<open>\<open>a[i]\<close> for \<open>i \<ge> 0\<close>: IndexError on a 0-d array and out of range.\<close>

definition array_index :: "'a ndarray \<Rightarrow> nat \<Rightarrow> error + 'a ndarray" where
  "array_index a i =
     (case shape a of
        [] \<Rightarrow> Inl IndexError
      | d # ds \<Rightarrow>
          if i < d
          then Inr \<lparr>shape = ds, flat = take (prod_list ds) (drop (i * prod_list ds) (flat a))\<rparr>
          else Inl IndexError)"

text \<open>
  \<open>np.concatenate((a, b), axis=0)\<close>: both arrays need at least one axis and the same
  shape after axis 0; numpy raises ValueError otherwise.
\<close>

definition np_concatenate :: "'a ndarray \<Rightarrow> 'a ndarray \<Rightarrow> error + 'a ndarray" where
  "np_concatenate a b =
     (case shape a of
        [] \<Rightarrow> Inl ValueError
      | da # sa \<Rightarrow>
          (case shape b of
             [] \<Rightarrow> Inl ValueError
           | db # sb \<Rightarrow>
               if sa = sb then Inr \<lparr>shape = (da + db) # sa, flat = flat a @ flat b\<rparr>
               else Inl ValueError))"

section \<open>The wrapped library\<close>

text \<open>
  A \<open>TrajectoryContextDataset\<close> of the library: its \<open>data\<close> array, of shape
  (windows, context length, features), and everything else it carries (index map, time
  lag, the trajectory) as \<open>cmeta\<close>.
\<close>

record ('a, 'm) contexts =
  cdata :: "'a ndarray"
  cmeta :: 'm

text \<open>What \<open>compute_hankel\<close>, \<open>fit\<close> and \<open>predict\<close> can be handed, and what \<open>self.data\<close> can hold.\<close>

datatype ('a, 'm) pydata =
  Tensor "'a ndarray"
| NdArray "'a ndarray"
| PyList "'a ndarray list"
| ContextsObj "('a, 'm) contexts"

text \<open>
  The attributes of the parent class \<open>NystroemKernel\<close> that \<open>KernelDMD\<close> reads or writes;
  \<open>nk_other\<close> is the rest of the parent's state (kernel, centers, fitted data).
  An attribute the parent has not set yet is \<open>None\<close>.
\<close>

record ('r, 'mat, 'x) nystroem =
  tikhonov_reg :: "'r option"
  nk_rank :: nat
  nk_U :: "'mat option"
  nk_V :: "'mat option"
  kernel_YX :: "'mat option"
  nk_other :: 'x

text \<open>
  The library is not part of the repository: its functions are parameters of the model.
  \<open>traj_to_contexts t context_window_len time_lag\<close> builds the context windows of one
  trajectory; \<open>nk_init\<close>, \<open>nk_fit\<close> and \<open>nk_predict\<close> are the parent's \<open>__init__\<close>,
  \<open>fit\<close> and \<open>predict\<close>, acting on the parent's attributes; the last four are
  the matrix operations \<open>.T\<close>, \<open>@\<close>, \<open>/\<close> and \<open>len\<close>.
\<close>

record ('a, 'm, 'r, 'mat, 'x, 'h) kooplearn =
  traj_to_contexts :: "'a ndarray \<Rightarrow> nat \<Rightarrow> nat \<Rightarrow> error + ('a, 'm) contexts"
  nk_init :: "'h \<Rightarrow> nat \<Rightarrow> 'r option \<Rightarrow> ('r, 'mat, 'x) nystroem"
  nk_fit :: "('r, 'mat, 'x) nystroem \<Rightarrow> ('a, 'm) contexts
               \<Rightarrow> (error + unit) \<times> ('r, 'mat, 'x) nystroem"
  nk_predict :: "('r, 'mat, 'x) nystroem \<Rightarrow> ('a, 'm) contexts
               \<Rightarrow> (error + 'a ndarray) \<times> ('r, 'mat, 'x) nystroem"
  mat_T :: "'mat \<Rightarrow> 'mat"
  matmul :: "'mat \<Rightarrow> 'mat \<Rightarrow> error + 'mat"
  mat_div :: "'mat \<Rightarrow> nat \<Rightarrow> 'mat"
  mat_len :: "'mat \<Rightarrow> nat"

section \<open>KernelDMD\<close>

record ('a, 'm, 'r, 'mat, 'x) kernel_dmd =
  parent :: "('r, 'mat, 'x) nystroem"
  n_delays :: nat
  context_window_len :: nat
  delay_interval :: nat
  verbose :: bool
  lamb :: 'r
  data :: "('a, 'm) pydata"
  A_v :: "'mat option"

text \<open>
  \<open>__init__\<close>. The arguments the class only passes on to the parent (\<open>kernel\<close>,
  \<open>reduced_rank_reg\<close>, \<open>svd_solver\<close>, \<open>num_centers\<close>) are one value \<open>hyper\<close>.
\<close>

definition init ::
  "('a, 'm, 'r::zero, 'mat, 'x, 'h) kooplearn \<Rightarrow> ('a, 'm) pydata \<Rightarrow> nat \<Rightarrow> 'h \<Rightarrow> nat \<Rightarrow> nat
     \<Rightarrow> 'r option \<Rightarrow> bool \<Rightarrow> ('a, 'm, 'r, 'mat, 'x) kernel_dmd" where
  "init lib dat n hyper interval rk lam verb =
     \<lparr>parent = (nk_init lib hyper rk lam)\<lparr>nk_rank := rk\<rparr>,
      n_delays = n,
      context_window_len = n + 1,
      delay_interval = interval,
      verbose = verb,
      lamb = (case lam of None \<Rightarrow> 0 | Some l \<Rightarrow> l),
      data = dat,
      A_v = None\<rparr>"

text \<open>\<open>trajs[i]\<close> and \<open>len(trajs)\<close> on the values \<open>compute_hankel\<close> indexes.\<close>

fun py_getitem :: "('a, 'm) pydata \<Rightarrow> nat \<Rightarrow> error + 'a ndarray" where
  "py_getitem (Tensor a) i = array_index a i"
| "py_getitem (NdArray a) i = array_index a i"
| "py_getitem (PyList xs) i = (if i < length xs then Inr (xs ! i) else Inl IndexError)"
| "py_getitem (ContextsObj c) i = Inl Unmodelled"

fun py_len :: "('a, 'm) pydata \<Rightarrow> error + nat" where
  "py_len (Tensor a) = (case shape a of [] \<Rightarrow> Inl TypeError | d # ds \<Rightarrow> Inr d)"
| "py_len (NdArray a) = (case shape a of [] \<Rightarrow> Inl TypeError | d # ds \<Rightarrow> Inr d)"
| "py_len (PyList xs) = Inr (length xs)"
| "py_len (ContextsObj c) = Inl Unmodelled"

text \<open>
  The first two statements of \<open>compute_hankel\<close>: a tensor becomes its numpy array, and
  a 2-D array gets a leading axis of length 1. (A tensor is taken to be convertible:
  \<open>trajs.numpy()\<close> returns an array of the same shape and elements.)
\<close>

fun normalize_trajs :: "('a, 'm) pydata \<Rightarrow> ('a, 'm) pydata" where
  "normalize_trajs (Tensor a) = (if ndim a = 2 then NdArray (newaxis a) else NdArray a)"
| "normalize_trajs (NdArray a) = (if ndim a = 2 then NdArray (newaxis a) else NdArray a)"
| "normalize_trajs (PyList xs) = PyList xs"
| "normalize_trajs (ContextsObj c) = ContextsObj c"

text \<open>
  The loop \<open>for i in range(1, len(trajs))\<close>, over the list of its indices: the contexts
  of trajectory \<open>i\<close> are built and their data appended to \<open>data.data\<close>.
\<close>

fun hankel_loop ::
  "('a, 'm, 'r, 'mat, 'x, 'h) kooplearn \<Rightarrow> nat \<Rightarrow> nat \<Rightarrow> ('a, 'm) pydata \<Rightarrow> nat list
     \<Rightarrow> ('a, 'm) contexts \<Rightarrow> error + ('a, 'm) contexts" where
  "hankel_loop lib cwl lag trajs [] d = Inr d"
| "hankel_loop lib cwl lag trajs (i # is) d =
     (case py_getitem trajs i of
        Inl e \<Rightarrow> Inl e
      | Inr t \<Rightarrow>
          (case traj_to_contexts lib t cwl lag of
             Inl e \<Rightarrow> Inl e
           | Inr new_traj \<Rightarrow>
               (case np_concatenate (cdata d) (cdata new_traj) of
                  Inl e \<Rightarrow> Inl e
                | Inr a \<Rightarrow> hankel_loop lib cwl lag trajs is (d\<lparr>cdata := a\<rparr>))))"

text \<open>The body of \<open>compute_hankel\<close> up to the assignment \<open>self.data = data\<close>.\<close>

definition hankel_contexts ::
  "('a, 'm, 'r, 'mat, 'x, 'h) kooplearn \<Rightarrow> nat \<Rightarrow> nat \<Rightarrow> ('a, 'm) pydata
     \<Rightarrow> error + ('a, 'm) contexts" where
  "hankel_contexts lib cwl lag trajs0 =
     (let trajs = normalize_trajs trajs0 in
      case py_getitem trajs 0 of
        Inl e \<Rightarrow> Inl e
      | Inr t0 \<Rightarrow>
          (case traj_to_contexts lib t0 cwl lag of
             Inl e \<Rightarrow> Inl e
           | Inr d \<Rightarrow>
               (case py_len trajs of
                  Inl e \<Rightarrow> Inl e
                | Inr n \<Rightarrow> hankel_loop lib cwl lag trajs [1..<n] d)))"

text \<open>
  \<open>compute_hankel\<close>: the only attribute written is \<open>self.data\<close>, in the last statement, so
  an exception leaves the object as it was. (The \<open>verbose\<close> print is not modelled.)
\<close>

definition compute_hankel ::
  "('a, 'm, 'r, 'mat, 'x, 'h) kooplearn \<Rightarrow> ('a, 'm, 'r, 'mat, 'x) kernel_dmd \<Rightarrow> ('a, 'm) pydata
     \<Rightarrow> (error + unit) \<times> ('a, 'm, 'r, 'mat, 'x) kernel_dmd" where
  "compute_hankel lib s trajs =
     (case hankel_contexts lib (context_window_len s) (delay_interval s) trajs of
        Inl e \<Rightarrow> (Inl e, s)
      | Inr d \<Rightarrow> (Inr (), s\<lparr>data := ContextsObj d\<rparr>))"

text \<open>
  \<open>compute_kernel_dmd\<close>: sets the parent's \<open>tikhonov_reg\<close>, calls the inherited \<open>fit\<close> on
  \<open>self.data\<close> and computes \<open>A_v = V.T @ kernel_YX @ U / len(kernel_YX)\<close>, read left to
  right as Python does. What the parent's \<open>fit\<close> wrote stays written when a later step
  raises.
\<close>

definition compute_kernel_dmd ::
  "('a, 'm, 'r, 'mat, 'x, 'h) kooplearn \<Rightarrow> ('a, 'm, 'r, 'mat, 'x) kernel_dmd \<Rightarrow> 'r option
     \<Rightarrow> (error + unit) \<times> ('a, 'm, 'r, 'mat, 'x) kernel_dmd" where
  "compute_kernel_dmd lib s lam =
     (let s1 = s\<lparr>parent := (parent s)\<lparr>tikhonov_reg :=
                   Some (case lam of None \<Rightarrow> lamb s | Some l \<Rightarrow> l)\<rparr>\<rparr>
      in case data s1 of
           ContextsObj c \<Rightarrow>
             (case nk_fit lib (parent s1) c of
                (Inl e, p) \<Rightarrow> (Inl e, s1\<lparr>parent := p\<rparr>)
              | (Inr u, p) \<Rightarrow>
                  (let s2 = s1\<lparr>parent := p\<rparr> in
                   case nk_V p of
                     None \<Rightarrow> (Inl AttributeError, s2)
                   | Some v \<Rightarrow>
                       (case kernel_YX p of
                          None \<Rightarrow> (Inl AttributeError, s2)
                        | Some k \<Rightarrow>
                            (case matmul lib (mat_T lib v) k of
                               Inl e \<Rightarrow> (Inl e, s2)
                             | Inr vk \<Rightarrow>
                                 (case nk_U p of
                                    None \<Rightarrow> (Inl AttributeError, s2)
                                  | Some u \<Rightarrow>
                                      (case matmul lib vk u of
                                         Inl e \<Rightarrow> (Inl e, s2)
                                       | Inr vku \<Rightarrow>
                                           (Inr (), s2\<lparr>A_v :=
                                              Some (mat_div lib vku (mat_len lib k))\<rparr>)))))))
         | _ \<Rightarrow> (Inl Unmodelled, s1))"

text \<open>\<open>fit(data=None, lamb=None)\<close>.\<close>

definition fit ::
  "('a, 'm, 'r, 'mat, 'x, 'h) kooplearn \<Rightarrow> ('a, 'm, 'r, 'mat, 'x) kernel_dmd
     \<Rightarrow> ('a, 'm) pydata option \<Rightarrow> 'r option
     \<Rightarrow> (error + unit) \<times> ('a, 'm, 'r, 'mat, 'x) kernel_dmd" where
  "fit lib s dat lam =
     (let d = (case dat of None \<Rightarrow> data s | Some x \<Rightarrow> x);
          l = (case lam of None \<Rightarrow> lamb s | Some x \<Rightarrow> x)
      in case compute_hankel lib s d of
           (Inl e, s1) \<Rightarrow> (Inl e, s1)
         | (Inr u, s1) \<Rightarrow> compute_kernel_dmd lib s1 (Some l))"

subsection \<open>The array operations of \<open>predict\<close>\<close>

text \<open>
  \<open>np.array(xs)\<close> on a list of arrays: arrays of one shape are stacked along a new axis 0;
  a ragged list raises ValueError (numpy 1.24 and later).
\<close>

definition np_array :: "'a ndarray list \<Rightarrow> error + 'a ndarray" where
  "np_array xs =
     (case xs of
        [] \<Rightarrow> Inr \<lparr>shape = [0], flat = []\<rparr>
      | a # as \<Rightarrow>
          if list_all (\<lambda>b. shape b = shape a) as
          then Inr \<lparr>shape = length xs # shape a, flat = concat (map flat xs)\<rparr>
          else Inl ValueError)"

text \<open>
  The conversions at the top of \<open>predict\<close>: \<open>test_data.numpy()\<close> for a tensor,
  \<open>np.array(test_data)\<close> for a list.
\<close>

fun to_array :: "('a, 'm) pydata \<Rightarrow> error + 'a ndarray" where
  "to_array (Tensor a) = Inr a"
| "to_array (NdArray a) = Inr a"
| "to_array (PyList xs) = np_array xs"
| "to_array (ContextsObj c) = Inl Unmodelled"

definition np_zeros :: "nat list \<Rightarrow> ('a::zero) ndarray" where
  "np_zeros sh = \<lparr>shape = sh, flat = replicate (prod_list sh) 0\<rparr>"

text \<open>\<open>a[:, 0:n]\<close> and \<open>a[:, n:]\<close>; a slice bound past the end of axis 1 is clipped.\<close>

definition take_axis1 :: "nat \<Rightarrow> 'a ndarray \<Rightarrow> error + 'a ndarray" where
  "take_axis1 n a =
     (case shape a of
        k # t # rest \<Rightarrow>
          Inr \<lparr>shape = k # min n t # rest,
               flat = concat (map (take (min n t * prod_list rest)) (rows a))\<rparr>
      | _ \<Rightarrow> Inl IndexError)"

definition drop_axis1 :: "nat \<Rightarrow> 'a ndarray \<Rightarrow> error + 'a ndarray" where
  "drop_axis1 n a =
     (case shape a of
        k # t # rest \<Rightarrow>
          Inr \<lparr>shape = k # (t - min n t) # rest,
               flat = concat (map (drop (min n t * prod_list rest)) (rows a))\<rparr>
      | _ \<Rightarrow> Inl IndexError)"

text \<open>
  numpy's broadcasting of a value into the shape of the slice it is assigned to: shapes
  are aligned at the last axis, an axis of length 1 is repeated, leading axes of length 1
  of the value may be dropped.
\<close>

fun broadcast_flat :: "nat list \<Rightarrow> nat list \<Rightarrow> 'a list \<Rightarrow> 'a list option" where
  "broadcast_flat [] [] xs = Some xs"
| "broadcast_flat (v # vs) (t # ts) xs =
     (if v = t
      then map_option concat (those (map (broadcast_flat vs ts) (chunks v (prod_list vs) xs)))
      else if v = 1
      then map_option (\<lambda>ys. concat (replicate t ys)) (broadcast_flat vs ts xs)
      else None)"
| "broadcast_flat vs ts xs = None"

definition broadcast_to :: "nat list \<Rightarrow> 'a ndarray \<Rightarrow> error + 'a ndarray" where
  "broadcast_to sh v =
     (if shape v = sh then Inr v
      else
        (let extra = length (shape v) - length sh;
             vs = replicate (length sh - length (shape v)) 1 @ drop extra (shape v)
         in if list_all (\<lambda>d. d = 1) (take extra (shape v))
            then (case broadcast_flat vs sh (flat v) of
                    None \<Rightarrow> Inl ValueError
                  | Some ys \<Rightarrow> Inr \<lparr>shape = sh, flat = ys\<rparr>)
            else Inl ValueError))"

text \<open>\<open>tgt[:, 0:n] = v\<close> and \<open>tgt[:, n:] = v\<close>.\<close>

definition set_take_axis1 :: "nat \<Rightarrow> 'a ndarray \<Rightarrow> 'a ndarray \<Rightarrow> error + 'a ndarray" where
  "set_take_axis1 n tgt v =
     (case shape tgt of
        k # t # rest \<Rightarrow>
          (case broadcast_to (k # min n t # rest) v of
             Inl e \<Rightarrow> Inl e
           | Inr w \<Rightarrow>
               Inr (tgt\<lparr>flat := concat (map2 (\<lambda>r x. x @ drop (min n t * prod_list rest) r)
                                            (rows tgt) (rows w))\<rparr>))
      | _ \<Rightarrow> Inl IndexError)"

definition set_drop_axis1 :: "nat \<Rightarrow> 'a ndarray \<Rightarrow> 'a ndarray \<Rightarrow> error + 'a ndarray" where
  "set_drop_axis1 n tgt v =
     (case shape tgt of
        k # t # rest \<Rightarrow>
          (case broadcast_to (k # (t - min n t) # rest) v of
             Inl e \<Rightarrow> Inl e
           | Inr w \<Rightarrow>
               Inr (tgt\<lparr>flat := concat (map2 (\<lambda>r x. take (min n t * prod_list rest) r @ x)
                                            (rows tgt) (rows w))\<rparr>))
      | _ \<Rightarrow> Inl IndexError)"

text \<open>
  \<open>a.reshape(dims)\<close>. The dimensions are Python integers: one \<open>-1\<close> is inferred from the
  size, any other negative dimension and a size that does not fit raise ValueError.
\<close>

definition np_reshape :: "int list \<Rightarrow> 'a ndarray \<Rightarrow> error + 'a ndarray" where
  "np_reshape dims a =
     (let sz = prod_list (shape a);
          negs = filter (\<lambda>d. d < 0) dims;
          known = prod_list (map nat (filter (\<lambda>d. 0 \<le> d) dims))
      in if negs = []
         then (if known = sz then Inr \<lparr>shape = map nat dims, flat = flat a\<rparr>
               else Inl ValueError)
         else if negs = [- 1] \<and> known \<noteq> 0 \<and> sz mod known = 0
         then Inr \<lparr>shape = map (\<lambda>d. if d < 0 then sz div known else nat d) dims,
                   flat = flat a\<rparr>
         else Inl ValueError)"

text \<open>\<open>a.squeeze()\<close>: every axis of length 1 is removed.\<close>

definition squeeze :: "'a ndarray \<Rightarrow> 'a ndarray" where
  "squeeze a = a\<lparr>shape := filter (\<lambda>d. d \<noteq> 1) (shape a)\<rparr>"

subsection \<open>\<open>predict\<close>\<close>

text \<open>
  \<open>predict\<close> from the conversions on. The local variable \<open>reseed\<close> is a parameter here; the
  statements that read it are commented out in the source. \<open>self.data\<close> is overwritten by
  \<open>compute_hankel\<close>, so the state returned with a later exception carries the new contexts.
\<close>

definition predict_body ::
  "('a::zero, 'm, 'r, 'mat, 'x, 'h) kooplearn \<Rightarrow> ('a, 'm, 'r, 'mat, 'x) kernel_dmd
     \<Rightarrow> ('a, 'm) pydata \<Rightarrow> int
     \<Rightarrow> (error + 'a ndarray) \<times> ('a, 'm, 'r, 'mat, 'x) kernel_dmd" where
  "predict_body lib s test_data0 reseed =
     (case to_array test_data0 of
        Inl e \<Rightarrow> (Inl e, s)
      | Inr a0 \<Rightarrow>
          (let isdim2 = (ndim a0 = 2);
               test_data = (if isdim2 then newaxis a0 else a0);
               pred_data0 = np_zeros (shape test_data)
           in case take_axis1 (n_delays s) test_data of
                Inl e \<Rightarrow> (Inl e, s)
              | Inr seed \<Rightarrow>
                  (case set_take_axis1 (n_delays s) pred_data0 seed of
                     Inl e \<Rightarrow> (Inl e, s)
                   | Inr pred_data1 \<Rightarrow>
                       (case compute_hankel lib s (NdArray test_data) of
                          (Inl e, s1) \<Rightarrow> (Inl e, s1)
                        | (Inr u, s1) \<Rightarrow>
                            (case data s1 of
                               ContextsObj c \<Rightarrow>
                                 (case nk_predict lib (parent s1) c of
                                    (Inl e, p) \<Rightarrow> (Inl e, s1\<lparr>parent := p\<rparr>)
                                  | (Inr pred, p) \<Rightarrow>
                                      (let s2 = s1\<lparr>parent := p\<rparr> in
                                       case shape test_data of
                                         k # t # n # rest \<Rightarrow>
                                           (case np_reshape [int k, int t - int (n_delays s), int n] pred of
                                              Inl e \<Rightarrow> (Inl e, s2)
                                            | Inr pred3 \<Rightarrow>
                                                (case set_drop_axis1 (n_delays s) pred_data1 pred3 of
                                                   Inl e \<Rightarrow> (Inl e, s2)
                                                 | Inr pred_data2 \<Rightarrow> (Inr (squeeze pred_data2), s2)))
                                       | _ \<Rightarrow> (Inl IndexError, s2)))
                             | _ \<Rightarrow> (Inl Unmodelled, s1))))))"

text \<open>\<open>predict(test_data=None, reseed=None)\<close>.\<close>

definition predict ::
  "('a::zero, 'm, 'r, 'mat, 'x, 'h) kooplearn \<Rightarrow> ('a, 'm, 'r, 'mat, 'x) kernel_dmd
     \<Rightarrow> ('a, 'm) pydata option \<Rightarrow> int option
     \<Rightarrow> (error + 'a ndarray) \<times> ('a, 'm, 'r, 'mat, 'x) kernel_dmd" where
  "predict lib s test_data reseed =
     (let td = (case test_data of None \<Rightarrow> data s | Some x \<Rightarrow> x)
      in case reseed of
           None \<Rightarrow> predict_body lib s td 1
         | Some r \<Rightarrow> (Inl NotImplementedError, s))"

section \<open>Notions the properties are stated in\<close>

text \<open>
  The trajectories of an input, as the documentation of \<open>compute_hankel\<close> reads it: a
  tensor is its numpy array, a 2-D array is one trajectory, any other array gives one
  trajectory per entry along axis 0, a list gives its elements.
\<close>

definition array_entries :: "'a ndarray \<Rightarrow> 'a ndarray list" where
  "array_entries a =
     (case shape a of [] \<Rightarrow> [] | d # ds \<Rightarrow> map (\<lambda>r. \<lparr>shape = ds, flat = r\<rparr>) (rows a))"

fun trajectories :: "('a, 'm) pydata \<Rightarrow> 'a ndarray list" where
  "trajectories (Tensor a) = (if ndim a = 2 then [a] else array_entries a)"
| "trajectories (NdArray a) = (if ndim a = 2 then [a] else array_entries a)"
| "trajectories (PyList xs) = xs"
| "trajectories (ContextsObj c) = []"

text \<open>
  The inputs the methods are written for: a tensor, an array or a list of arrays. A numpy
  array always holds as many elements as its shape says; the model needs that of a 2-D
  input, which is re-read through its new leading axis.
\<close>

fun wf_input :: "('a, 'm) pydata \<Rightarrow> bool" where
  "wf_input (Tensor a) = (ndim a \<noteq> 2 \<or> wf_array a)"
| "wf_input (NdArray a) = (ndim a \<noteq> 2 \<or> wf_array a)"
| "wf_input (PyList xs) = True"
| "wf_input (ContextsObj c) = False"

text \<open>The contexts of every trajectory of a list, when the library builds them all.\<close>

fun contexts_of_all ::
  "('a, 'm, 'r, 'mat, 'x, 'h) kooplearn \<Rightarrow> nat \<Rightarrow> nat \<Rightarrow> 'a ndarray list
     \<Rightarrow> ('a, 'm) contexts list option" where
  "contexts_of_all lib cwl lag [] = Some []"
| "contexts_of_all lib cwl lag (t # ts) =
     (case traj_to_contexts lib t cwl lag of
        Inl e \<Rightarrow> None
      | Inr c \<Rightarrow> map_option ((#) c) (contexts_of_all lib cwl lag ts))"

text \<open>
  The concatenation of a list of arrays along axis 0, all at once: the arrays agree on
  their shape after axis 0, the lengths of axis 0 add up and the elements follow each
  other in the order of the list. One array alone is its own concatenation.
\<close>

fun concat_axis0 :: "'a ndarray list \<Rightarrow> error + 'a ndarray" where
  "concat_axis0 [] = Inl ValueError"
| "concat_axis0 [a] = Inr a"
| "concat_axis0 (a # b # bs) =
     (if list_all (\<lambda>x. shape x \<noteq> [] \<and> tl (shape x) = tl (shape a)) (a # b # bs)
      then Inr \<lparr>shape = sum_list (map (\<lambda>x. hd (shape x)) (a # b # bs)) # tl (shape a),
                flat = concat (map flat (a # b # bs))\<rparr>
      else Inl ValueError)"

text \<open>A pure loop over the trajectories after the first, used to reason about \<open>hankel_loop\<close>.\<close>

fun concat_loop ::
  "('a, 'm, 'r, 'mat, 'x, 'h) kooplearn \<Rightarrow> nat \<Rightarrow> nat \<Rightarrow> 'a ndarray list
     \<Rightarrow> ('a, 'm) contexts \<Rightarrow> error + ('a, 'm) contexts" where
  "concat_loop lib cwl lag [] d = Inr d"
| "concat_loop lib cwl lag (t # ts) d =
     (case traj_to_contexts lib t cwl lag of
        Inl e \<Rightarrow> Inl e
      | Inr new_traj \<Rightarrow>
          (case np_concatenate (cdata d) (cdata new_traj) of
             Inl e \<Rightarrow> Inl e
           | Inr a \<Rightarrow> concat_loop lib cwl lag ts (d\<lparr>cdata := a\<rparr>)))"

text \<open>
  The Hankel contexts as the specification describes them: the contexts of each
  trajectory, their data concatenated along axis 0 in input order, carried by the
  contexts object of the first trajectory.
\<close>

definition hankel_spec ::
  "('a, 'm, 'r, 'mat, 'x, 'h) kooplearn \<Rightarrow> nat \<Rightarrow> nat \<Rightarrow> ('a, 'm) pydata
     \<Rightarrow> ('a, 'm) contexts option" where
  "hankel_spec lib cwl lag inp =
     (case contexts_of_all lib cwl lag (trajectories inp) of
        None \<Rightarrow> None
      | Some cs \<Rightarrow>
          (case concat_axis0 (map cdata cs) of
             Inl e \<Rightarrow> None
           | Inr d \<Rightarrow> Some ((hd cs)\<lparr>cdata := d\<rparr>)))"



section \<open>A small instance of the library\<close>

text \<open>
  To run the model on concrete inputs the library parameters need values. This instance
  works on integers. Its \<open>traj_to_contexts\<close> is the sliding window the library documents:
  window \<open>i\<close> holds the samples \<open>i, i + lag, ..., i + (L - 1) * lag\<close>. Its \<open>predict\<close> maps
  each window to one sample: twice the last sample of the window's lookback part (all
  samples but the last), or zeros when there is no lookback. Its \<open>fit\<close> stores 1-by-1
  matrices.
\<close>

definition sliding_contexts :: "int ndarray \<Rightarrow> nat \<Rightarrow> nat \<Rightarrow> error + (int, unit) contexts" where
  "sliding_contexts t cwl lag =
     (case shape t of
        [] \<Rightarrow> Inl ValueError
      | T # fs \<Rightarrow>
          if cwl < 1 \<or> lag < 1 \<or> T < 1 + (cwl - 1) * lag then Inl ValueError
          else Inr \<lparr>cdata =
                 \<lparr>shape = (T - (cwl - 1) * lag) # cwl # fs,
                  flat = concat (map (\<lambda>i. concat (map (\<lambda>j. take (prod_list fs)
                                     (drop ((i + j * lag) * prod_list fs) (flat t))) [0..<cwl]))
                                [0..<T - (cwl - 1) * lag])\<rparr>,
                 cmeta = ()\<rparr>)"

definition demo_step :: "nat \<Rightarrow> nat \<Rightarrow> int list \<Rightarrow> int list" where
  "demo_step L N w =
     (if L < 2 then replicate N 0 else map (\<lambda>x. 2 * x) (take N (drop ((L - 2) * N) w)))"

definition demo_predict ::
  "(int, int, unit) nystroem \<Rightarrow> (int, unit) contexts
     \<Rightarrow> (error + int ndarray) \<times> (int, int, unit) nystroem" where
  "demo_predict p c =
     (case shape (cdata c) of
        C # L # fs \<Rightarrow>
          (Inr \<lparr>shape = C # 1 # fs,
                flat = concat (map (demo_step L (prod_list fs)) (rows (cdata c)))\<rparr>, p)
      | _ \<Rightarrow> (Inl ValueError, p))"

definition demo_lib :: "(int, unit, int, int, unit, unit) kooplearn" where
  "demo_lib =
     \<lparr>traj_to_contexts = sliding_contexts,
      nk_init = (\<lambda>h rk lam. \<lparr>tikhonov_reg = lam, nk_rank = rk, nk_U = None, nk_V = None,
                              kernel_YX = None, nk_other = ()\<rparr>),
      nk_fit = (\<lambda>p c. (Inr (), p\<lparr>nk_U := Some 2, nk_V := Some 3, kernel_YX := Some 4\<rparr>)),
      nk_predict = demo_predict,
      mat_T = (\<lambda>m. m),
      matmul = (\<lambda>a b. Inr (a * b)),
      mat_div = (\<lambda>m n. m div int n),
      mat_len = (\<lambda>m. 1)\<rparr>"

text \<open>
  A model with one delay, \<open>delay_interval = 1\<close> and \<open>lamb = 7\<close>, constructed on a
  trajectory of four one-dimensional samples.
\<close>

definition demo_model :: "(int, unit, int, int, unit) kernel_dmd" where
  "demo_model =
     init demo_lib (NdArray \<lparr>shape = [4, 1], flat = [1, 2, 4, 8]\<rparr>) 1 () 1 10 (Some 7) False"


text \<open>The same model after \<open>fit()\<close> on the trajectory it was constructed with.\<close>

definition demo_fitted :: "(int, unit, int, int, unit) kernel_dmd" where
  "demo_fitted = snd (fit demo_lib demo_model None None)"

text \<open>
  A model with two delays and \<open>delay_interval = 2\<close>, constructed on a trajectory of six
  one-dimensional samples.
\<close>

definition demo_lagged :: "(int, unit, int, int, unit) kernel_dmd" where
  "demo_lagged =
     init demo_lib (NdArray \<lparr>shape = [6, 1], flat = [1, 2, 3, 4, 5, 6]\<rparr>) 2 () 2 10 (Some 7) False"

text \<open>A batch of two trajectories of different lengths, with two features each.\<close>

definition demo_traj1 :: "int ndarray" where
  "demo_traj1 = \<lparr>shape = [3, 2], flat = [1, 5, 7, 8, 9, 3]\<rparr>"

definition demo_traj2 :: "int ndarray" where
  "demo_traj2 = \<lparr>shape = [2, 2], flat = [11, 15, 17, 18]\<rparr>"

definition demo_batch :: "(int, unit) pydata" where
  "demo_batch = PyList [demo_traj1, demo_traj2]"

section \<open>Blocks of a flat list\<close>

lemma length_chunks: "length (chunks k sz xs) = k"
  by (induction k arbitrary: xs) auto

lemma chunks_nth: "i < k \<Longrightarrow> chunks k sz xs ! i = take sz (drop (i * sz) xs)"
proof (induction k arbitrary: xs i)
  case 0
  then show ?case by simp
next
  case (Suc k)
  show ?case
  proof (cases i)
    case 0
    then show ?thesis by simp
  next
    case (Suc j)
    with Suc.prems have "j < k" by simp
    from Suc.IH [OF this, of "drop sz xs"] Suc show ?thesis
      by (simp add: add.commute)
  qed
qed

lemma chunks_append:
  "length xs = k * sz \<Longrightarrow> chunks (k + m) sz (xs @ ys) = chunks k sz xs @ chunks m sz ys"
proof (induction k arbitrary: xs)
  case 0
  then show ?case by simp
next
  case (Suc k)
  then have "length (drop sz xs) = k * sz" by simp
  from Suc.IH [OF this] Suc.prems show ?case by simp
qed

lemma chunks_concat:
  "\<forall>r \<in> set rs. length r = sz \<Longrightarrow> chunks (length rs) sz (concat rs) = rs"
  by (induction rs) auto

lemma chunks_lengths:
  "k * sz \<le> length xs \<Longrightarrow> r \<in> set (chunks k sz xs) \<Longrightarrow> length r = sz"
proof (induction k arbitrary: xs)
  case 0
  then show ?case by simp
next
  case (Suc k)
  from Suc.prems have le: "k * sz \<le> length (drop sz xs)" and sz: "sz \<le> length xs" by auto
  from Suc.prems(2) have "r = take sz xs \<or> r \<in> set (chunks k sz (drop sz xs))" by simp
  then show ?case using Suc.IH [OF le] sz by auto
qed

section \<open>\<open>compute_hankel\<close> builds the contexts per trajectory and concatenates them\<close>

lemma getitem_normalize:
  assumes "wf_input inp" and "i < length (trajectories inp)"
  shows "py_getitem (normalize_trajs inp) i = Inr (trajectories inp ! i)"
proof -
  have entries: "array_index a i = Inr (array_entries a ! i)"
    if "i < length (array_entries a)" for a :: "'a ndarray"
  proof (cases "shape a")
    case Nil
    with that show ?thesis by (simp add: array_entries_def)
  next
    case (Cons d ds)
    with that have "i < d" by (simp add: array_entries_def rows_def length_chunks)
    with Cons show ?thesis
      by (simp add: array_index_def array_entries_def rows_def length_chunks chunks_nth)
  qed
  have single: "array_index (newaxis a) 0 = Inr a" if "wf_array a" for a :: "'a ndarray"
    using that by (simp add: array_index_def newaxis_def wf_array_def)
  show ?thesis
  proof (cases inp)
    case (Tensor a)
    with assms show ?thesis by (auto simp: entries single split: if_splits)
  next
    case (NdArray a)
    with assms show ?thesis by (auto simp: entries single split: if_splits)
  next
    case (PyList xs)
    with assms show ?thesis by simp
  next
    case (ContextsObj c)
    with assms show ?thesis by simp
  qed
qed

lemma getitem_normalize_empty:
  assumes "wf_input inp" and "trajectories inp = []"
  shows "py_getitem (normalize_trajs inp) 0 = Inl IndexError"
proof -
  have entries: "array_index a 0 = Inl IndexError"
    if "array_entries a = []" for a :: "'a ndarray"
  proof (cases "shape a")
    case Nil
    then show ?thesis by (simp add: array_index_def)
  next
    case (Cons d ds)
    with that have "length (chunks d (prod_list ds) (flat a)) = 0"
      by (simp add: array_entries_def rows_def)
    then have "d = 0" by (simp add: length_chunks)
    with Cons show ?thesis by (simp add: array_index_def)
  qed
  show ?thesis
  proof (cases inp)
    case (Tensor a)
    with assms show ?thesis by (auto simp: entries split: if_splits)
  next
    case (NdArray a)
    with assms show ?thesis by (auto simp: entries split: if_splits)
  next
    case (PyList xs)
    with assms show ?thesis by simp
  next
    case (ContextsObj c)
    with assms show ?thesis by simp
  qed
qed

lemma len_normalize:
  assumes "wf_input inp" and "trajectories inp \<noteq> []"
  shows "py_len (normalize_trajs inp) = Inr (length (trajectories inp))"
proof -
  have entries: "(case shape a of [] \<Rightarrow> Inl TypeError | d # ds \<Rightarrow> Inr d) = Inr (length (array_entries a))"
    if "array_entries a \<noteq> []" for a :: "'a ndarray"
    using that by (cases "shape a") (simp_all add: array_entries_def rows_def length_chunks)
  show ?thesis
  proof (cases inp)
    case (Tensor a)
    with assms show ?thesis by (auto simp: entries newaxis_def split: if_splits)
  next
    case (NdArray a)
    with assms show ?thesis by (auto simp: entries newaxis_def split: if_splits)
  next
    case (PyList xs)
    with assms show ?thesis by simp
  next
    case (ContextsObj c)
    with assms show ?thesis by simp
  qed
qed

lemma hankel_loop_concat_loop:
  "\<forall>i \<in> set is. py_getitem trajs i = Inr (ts ! i) \<Longrightarrow>
   hankel_loop lib cwl lag trajs is d = concat_loop lib cwl lag (map ((!) ts) is) d"
  by (induction "is" arbitrary: d) (auto split: sum.splits)

lemma map_nth_tl: "map ((!) ts) [1..<length ts] = tl ts"
  by (rule nth_equalityI) (auto simp: nth_tl)

lemma concat_axis0_step:
  assumes "np_concatenate a b = Inr ab"
  shows "concat_axis0 (a # b # bs) = concat_axis0 (ab # bs)"
proof -
  from assms obtain da sa db where sh: "shape a = da # sa" "shape b = db # sa"
    and ab: "ab = \<lparr>shape = (da + db) # sa, flat = flat a @ flat b\<rparr>"
    by (auto simp: np_concatenate_def split: list.splits if_splits)
  show ?thesis
  proof (cases bs)
    case Nil
    with sh ab show ?thesis by simp
  next
    case (Cons c cs)
    with sh ab show ?thesis by (simp add: add.assoc)
  qed
qed

lemma concat_axis0_fail:
  assumes "np_concatenate a b = Inl e"
  shows "concat_axis0 (a # b # bs) = Inl ValueError"
  using assms by (auto simp: np_concatenate_def split: list.splits if_splits)

lemma concat_loop_success:
  "concat_loop lib cwl lag ts d = Inr d' \<longleftrightarrow>
     (\<exists>cs a. contexts_of_all lib cwl lag ts = Some cs \<and>
        concat_axis0 (cdata d # map cdata cs) = Inr a \<and> d' = d\<lparr>cdata := a\<rparr>)"
proof (induction ts arbitrary: d)
  case Nil
  then show ?case by auto
next
  case (Cons t ts)
  show ?case
  proof (cases "traj_to_contexts lib t cwl lag")
    case (Inl e)
    then show ?thesis by simp
  next
    case (Inr c)
    show ?thesis
    proof (cases "np_concatenate (cdata d) (cdata c)")
      case (Inl e)
      from concat_axis0_fail [OF this] Inl Inr show ?thesis by auto
    next
      case ab: (Inr ab)
      have "concat_loop lib cwl lag (t # ts) d = concat_loop lib cwl lag ts (d\<lparr>cdata := ab\<rparr>)"
        using Inr ab by simp
      also have "\<dots> = Inr d' \<longleftrightarrow>
        (\<exists>cs a. contexts_of_all lib cwl lag ts = Some cs \<and>
           concat_axis0 (ab # map cdata cs) = Inr a \<and> d' = d\<lparr>cdata := a\<rparr>)"
        using Cons.IH [of "d\<lparr>cdata := ab\<rparr>"] by simp
      also have "\<dots> \<longleftrightarrow>
        (\<exists>cs a. contexts_of_all lib cwl lag (t # ts) = Some cs \<and>
           concat_axis0 (cdata d # map cdata cs) = Inr a \<and> d' = d\<lparr>cdata := a\<rparr>)"
        using Inr concat_axis0_step [OF ab] by auto
      finally show ?thesis .
    qed
  qed
qed

lemma hankel_contexts_success:
  assumes "wf_input inp"
  shows "hankel_contexts lib cwl lag inp = Inr d \<longleftrightarrow> hankel_spec lib cwl lag inp = Some d"
proof (cases "trajectories inp")
  case Nil
  with getitem_normalize_empty [OF assms] show ?thesis
    by (simp add: hankel_contexts_def hankel_spec_def)
next
  case (Cons t0 ts)
  then have ne: "trajectories inp \<noteq> []" and len: "length (trajectories inp) = Suc (length ts)"
    by simp_all
  have g0: "py_getitem (normalize_trajs inp) 0 = Inr t0"
    using getitem_normalize [OF assms, of 0] Cons by simp
  have loop: "hankel_loop lib cwl lag (normalize_trajs inp) [1..<Suc (length ts)] c =
      concat_loop lib cwl lag ts c" for c
  proof -
    have "\<forall>i \<in> set [1..<Suc (length ts)].
        py_getitem (normalize_trajs inp) i = Inr ((t0 # ts) ! i)"
      using getitem_normalize [OF assms] Cons by auto
    from hankel_loop_concat_loop [OF this]
    have "hankel_loop lib cwl lag (normalize_trajs inp) [1..<Suc (length ts)] c =
      concat_loop lib cwl lag (map ((!) (t0 # ts)) [1..<Suc (length ts)]) c" .
    moreover have "map ((!) (t0 # ts)) [1..<Suc (length ts)] = ts"
      using map_nth_tl [of "t0 # ts"] by simp
    ultimately show ?thesis by simp
  qed
  show ?thesis
  proof (cases "traj_to_contexts lib t0 cwl lag")
    case (Inl e)
    with g0 Cons show ?thesis by (simp add: hankel_contexts_def hankel_spec_def)
  next
    case (Inr c0)
    have "hankel_contexts lib cwl lag inp = concat_loop lib cwl lag ts c0"
      using g0 Inr len_normalize [OF assms ne] len loop
      by (simp add: hankel_contexts_def)
    moreover have "hankel_spec lib cwl lag inp = Some d \<longleftrightarrow>
      (\<exists>cs a. contexts_of_all lib cwl lag ts = Some cs \<and>
         concat_axis0 (cdata c0 # map cdata cs) = Inr a \<and> d = c0\<lparr>cdata := a\<rparr>)"
      using Cons Inr by (auto simp: hankel_spec_def split: option.splits sum.splits)
    ultimately show ?thesis by (simp add: concat_loop_success)
  qed
qed

lemma init_window:
  "context_window_len (init lib dat n h i rk lam v) = n_delays (init lib dat n h i rk lam v) + 1"
  by (simp add: init_def)

text \<open>
  C1. For a tensor, an array or a list of trajectories, \<open>compute_hankel\<close> returns exactly
  when the library builds the contexts of every trajectory with
  \<open>context_window_len = n_delays + 1\<close> and \<open>time_lag = delay_interval\<close> and their data can be
  concatenated along axis 0; \<open>self.data\<close> is then the contexts object of the first
  trajectory holding that concatenation, in input order, and nothing else changes.
\<close>

theorem compute_hankel_concatenates:
  assumes "context_window_len s = n_delays s + 1" and "wf_input inp"
  shows "compute_hankel lib s inp = (Inr (), s') \<longleftrightarrow>
    (\<exists>cs d. contexts_of_all lib (n_delays s + 1) (delay_interval s) (trajectories inp) = Some cs \<and>
       concat_axis0 (map cdata cs) = Inr d \<and>
       s' = s\<lparr>data := ContextsObj ((hd cs)\<lparr>cdata := d\<rparr>)\<rparr>)"
proof -
  have "compute_hankel lib s inp = (Inr (), s') \<longleftrightarrow>
    (\<exists>c. hankel_contexts lib (n_delays s + 1) (delay_interval s) inp = Inr c \<and>
       s' = s\<lparr>data := ContextsObj c\<rparr>)"
    using assms(1) by (auto simp: compute_hankel_def split: sum.splits)
  also have "\<dots> \<longleftrightarrow>
    (\<exists>c. hankel_spec lib (n_delays s + 1) (delay_interval s) inp = Some c \<and>
       s' = s\<lparr>data := ContextsObj c\<rparr>)"
    by (simp add: hankel_contexts_success [OF assms(2)])
  also have "\<dots> \<longleftrightarrow>
    (\<exists>cs d. contexts_of_all lib (n_delays s + 1) (delay_interval s) (trajectories inp) = Some cs \<and>
       concat_axis0 (map cdata cs) = Inr d \<and>
       s' = s\<lparr>data := ContextsObj ((hd cs)\<lparr>cdata := d\<rparr>)\<rparr>)"
    by (auto simp: hankel_spec_def split: option.splits sum.splits)
  finally show ?thesis .
qed

theorem compute_hankel_concatenates_witness:
  "context_window_len demo_model = n_delays demo_model + 1 \<and>
   wf_input (PyList [\<lparr>shape = [3, 2], flat = [1, 5, 7, 8, 9, 3]\<rparr>,
                     \<lparr>shape = [2, 2], flat = [11, 15, 17, 18::int]\<rparr>] :: (int, unit) pydata) \<and>
   contexts_of_all demo_lib 2 1
      [\<lparr>shape = [3, 2], flat = [1, 5, 7, 8, 9, 3]\<rparr>, \<lparr>shape = [2, 2], flat = [11, 15, 17, 18]\<rparr>]
     = Some [\<lparr>cdata = \<lparr>shape = [2, 2, 2], flat = [1, 5, 7, 8, 7, 8, 9, 3]\<rparr>, cmeta = ()\<rparr>,
             \<lparr>cdata = \<lparr>shape = [1, 2, 2], flat = [11, 15, 17, 18]\<rparr>, cmeta = ()\<rparr>] \<and>
   compute_hankel demo_lib demo_model
      (PyList [\<lparr>shape = [3, 2], flat = [1, 5, 7, 8, 9, 3]\<rparr>,
               \<lparr>shape = [2, 2], flat = [11, 15, 17, 18]\<rparr>])
     = (Inr (), demo_model\<lparr>data := ContextsObj
          \<lparr>cdata = \<lparr>shape = [3, 2, 2], flat = [1, 5, 7, 8, 7, 8, 9, 3, 11, 15, 17, 18]\<rparr>,
           cmeta = ()\<rparr>\<rparr>)"
proof -
  let ?inp = "PyList [\<lparr>shape = [3, 2], flat = [1, 5, 7, 8, 9, 3]\<rparr>,
                      \<lparr>shape = [2, 2], flat = [11, 15, 17, 18::int]\<rparr>] :: (int, unit) pydata"
  let ?cs = "[\<lparr>cdata = \<lparr>shape = [2, 2, 2], flat = [1, 5, 7, 8, 7, 8, 9, 3::int]\<rparr>, cmeta = ()\<rparr>,
              \<lparr>cdata = \<lparr>shape = [1, 2, 2], flat = [11, 15, 17, 18]\<rparr>, cmeta = ()\<rparr>]"
  let ?d = "\<lparr>shape = [3, 2, 2], flat = [1, 5, 7, 8, 7, 8, 9, 3, 11, 15, 17, 18::int]\<rparr>"
  have inv: "context_window_len demo_model = n_delays demo_model + 1"
    by code_simp
  have wf: "wf_input ?inp"
    by simp
  have cs: "contexts_of_all demo_lib (n_delays demo_model + 1) (delay_interval demo_model)
      (trajectories ?inp) = Some ?cs"
    by code_simp
  have d: "concat_axis0 (map cdata ?cs) = Inr ?d"
    by code_simp
  have "compute_hankel demo_lib demo_model ?inp =
      (Inr (), demo_model\<lparr>data := ContextsObj ((hd ?cs)\<lparr>cdata := ?d\<rparr>)\<rparr>)"
    using compute_hankel_concatenates [OF inv wf, of demo_lib] cs d by blast
  moreover have "contexts_of_all demo_lib 2 1
      [\<lparr>shape = [3, 2], flat = [1, 5, 7, 8, 9, 3]\<rparr>, \<lparr>shape = [2, 2], flat = [11, 15, 17, 18]\<rparr>]
     = Some ?cs"
    by code_simp
  ultimately show ?thesis using inv wf by simp
qed

lemma chunks_concat_flats:
  "\<forall>x \<in> set xs. shape x \<noteq> [] \<and> tl (shape x) = sa \<and> wf_array x \<Longrightarrow>
   chunks (sum_list (map (\<lambda>x. hd (shape x)) xs)) (prod_list sa) (concat (map flat xs))
     = concat (map rows xs)"
proof (induction xs)
  case Nil
  then show ?case by simp
next
  case (Cons x xs)
  then obtain d where sh: "shape x = d # sa" and wf: "wf_array x"
    by (cases "shape x") auto
  then have len: "length (flat x) = d * prod_list sa"
    by (simp add: wf_array_def)
  from Cons have IH: "chunks (sum_list (map (\<lambda>x. hd (shape x)) xs)) (prod_list sa)
      (concat (map flat xs)) = concat (map rows xs)"
    by simp
  have "chunks (d + sum_list (map (\<lambda>x. hd (shape x)) xs)) (prod_list sa)
      (flat x @ concat (map flat xs))
    = chunks d (prod_list sa) (flat x) @ concat (map rows xs)"
    by (simp only: chunks_append [OF len] IH)
  moreover have "rows x = chunks d (prod_list sa) (flat x)"
    using sh by (simp add: rows_def)
  ultimately show ?case using sh by simp
qed

lemma rows_concat_axis0:
  assumes "\<forall>x \<in> set xs. wf_array x" and "concat_axis0 xs = Inr d"
  shows "rows d = concat (map rows xs)"
proof (cases xs rule: concat_axis0.cases)
  case 1
  with assms show ?thesis by simp
next
  case (2 a)
  with assms show ?thesis by simp
next
  case (3 a b bs)
  with assms(2) have ok: "\<forall>x \<in> set xs. shape x \<noteq> [] \<and> tl (shape x) = tl (shape a)"
    and d: "d = \<lparr>shape = sum_list (map (\<lambda>x. hd (shape x)) xs) # tl (shape a),
                 flat = concat (map flat xs)\<rparr>"
    by (auto simp: list_all_iff split: if_splits)
  from ok assms(1) have "\<forall>x \<in> set xs. shape x \<noteq> [] \<and> tl (shape x) = tl (shape a) \<and> wf_array x"
    by simp
  from chunks_concat_flats [OF this] d show ?thesis
    by (simp add: rows_def)
qed

lemma contexts_of_all_nth:
  "contexts_of_all lib cwl lag ts = Some cs \<Longrightarrow>
   length cs = length ts \<and> (\<forall>i < length ts. traj_to_contexts lib (ts ! i) cwl lag = Inr (cs ! i))"
proof (induction ts arbitrary: cs)
  case Nil
  then show ?case by simp
next
  case (Cons t ts)
  then obtain c cs' where c: "traj_to_contexts lib t cwl lag = Inr c"
    and cs': "contexts_of_all lib cwl lag ts = Some cs'" and cs: "cs = c # cs'"
    by (auto split: sum.splits)
  from Cons.IH [OF cs'] c cs show ?case
    by (auto simp: nth_Cons split: nat.splits)
qed

section \<open>Every window comes from one trajectory\<close>

text \<open>
  C6. Every context window of the Hankel data of a batch is a window the library built
  from one single input trajectory: the rows of the data are, in order, the rows of the
  contexts of the first trajectory, then those of the second, and so on. Hence whatever
  relation \<open>P\<close> the library guarantees between a window and the trajectory it was cut from
  (such as: every sample of the window is a sample of that trajectory) holds between
  every window of the result and one input trajectory.
\<close>

theorem hankel_windows_from_one_trajectory:
  assumes wf: "\<And>t c. t \<in> set (trajectories inp) \<Longrightarrow>
        traj_to_contexts lib t (context_window_len s) (delay_interval s) = Inr c \<Longrightarrow>
        wf_array (cdata c)"
    and cut: "\<And>t c w. t \<in> set (trajectories inp) \<Longrightarrow>
        traj_to_contexts lib t (context_window_len s) (delay_interval s) = Inr c \<Longrightarrow>
        w \<in> set (rows (cdata c)) \<Longrightarrow> P w t"
    and inp: "wf_input inp"
    and ret: "compute_hankel lib s inp = (Inr (), s')"
  shows "\<exists>c cs. data s' = ContextsObj c \<and>
      contexts_of_all lib (context_window_len s) (delay_interval s) (trajectories inp) = Some cs \<and>
      rows (cdata c) = concat (map (\<lambda>x. rows (cdata x)) cs) \<and>
      (\<forall>w \<in> set (rows (cdata c)). \<exists>t \<in> set (trajectories inp). P w t)"
proof -
  let ?cwl = "context_window_len s" and ?lag = "delay_interval s"
  let ?ts = "trajectories inp"
  from ret obtain c where c: "hankel_contexts lib ?cwl ?lag inp = Inr c"
    and s': "s' = s\<lparr>data := ContextsObj c\<rparr>"
    by (auto simp: compute_hankel_def split: sum.splits)
  from c have "hankel_spec lib ?cwl ?lag inp = Some c"
    by (simp add: hankel_contexts_success [OF inp])
  then obtain cs d where cs: "contexts_of_all lib ?cwl ?lag ?ts = Some cs"
    and d: "concat_axis0 (map cdata cs) = Inr d" and cd: "cdata c = d"
    by (auto simp: hankel_spec_def split: option.splits sum.splits)
  from contexts_of_all_nth [OF cs] have len: "length cs = length ?ts"
    and nth: "\<And>i. i < length ?ts \<Longrightarrow> traj_to_contexts lib (?ts ! i) ?cwl ?lag = Inr (cs ! i)"
    by simp_all
  have "\<forall>x \<in> set (map cdata cs). wf_array x"
  proof
    fix x assume "x \<in> set (map cdata cs)"
    then obtain i where i: "i < length cs" and x: "x = cdata (cs ! i)"
      by (auto simp: in_set_conv_nth)
    from i len have "?ts ! i \<in> set ?ts" by simp
    from wf [OF this nth] i len x show "wf_array x" by simp
  qed
  from rows_concat_axis0 [OF this d] cd
  have rows: "rows (cdata c) = concat (map (\<lambda>x. rows (cdata x)) cs)"
    by (simp add: comp_def)
  have "\<exists>t \<in> set ?ts. P w t" if "w \<in> set (rows (cdata c))" for w
  proof -
    from that rows obtain x where "x \<in> set cs" and w: "w \<in> set (rows (cdata x))"
      by auto
    then obtain i where i: "i < length cs" and x: "x = cs ! i"
      by (auto simp: in_set_conv_nth)
    from i len have mem: "?ts ! i \<in> set ?ts" by simp
    from i len have "traj_to_contexts lib (?ts ! i) ?cwl ?lag = Inr x"
      using nth x by simp
    from cut [OF mem this w] mem show ?thesis by blast
  qed
  with s' cs rows show ?thesis by auto
qed

theorem hankel_windows_from_one_trajectory_witness:
  "wf_input demo_batch \<and>
   compute_hankel demo_lib demo_model demo_batch =
     (Inr (), demo_model\<lparr>data := ContextsObj
        \<lparr>cdata = \<lparr>shape = [3, 2, 2], flat = [1, 5, 7, 8, 7, 8, 9, 3, 11, 15, 17, 18]\<rparr>,
         cmeta = ()\<rparr>\<rparr>) \<and>
   (\<exists>cs. contexts_of_all demo_lib 2 1 [demo_traj1, demo_traj2] = Some cs \<and>
      [[1, 5, 7, 8], [7, 8, 9, 3], [11, 15, 17, 18]] = concat (map (\<lambda>x. rows (cdata x)) cs)) \<and>
   list_all (\<lambda>w. list_ex (\<lambda>t. list_all (\<lambda>x. x \<in> set (rows t)) (chunks 2 2 w))
                [demo_traj1, demo_traj2])
     [[1, 5, 7, 8], [7, 8, 9, 3], [11, 15, 17, 18]]"
proof -
  let ?P = "\<lambda>w t. list_all (\<lambda>x. x \<in> set (rows t)) (chunks 2 2 w)"
  let ?c = "\<lparr>cdata = \<lparr>shape = [3, 2, 2], flat = [1, 5, 7, 8, 7, 8, 9, 3, 11, 15, 17, 18::int]\<rparr>,
             cmeta = ()\<rparr>"
  let ?s' = "demo_model\<lparr>data := ContextsObj ?c\<rparr>"
  have cwl: "context_window_len demo_model = 2" and lag: "delay_interval demo_model = 1"
    by code_simp+
  have ts: "trajectories demo_batch = [demo_traj1, demo_traj2]"
    by (simp add: demo_batch_def)
  have c1: "traj_to_contexts demo_lib demo_traj1 2 1 =
      Inr \<lparr>cdata = \<lparr>shape = [2, 2, 2], flat = [1, 5, 7, 8, 7, 8, 9, 3]\<rparr>, cmeta = ()\<rparr>"
    by code_simp
  have c2: "traj_to_contexts demo_lib demo_traj2 2 1 =
      Inr \<lparr>cdata = \<lparr>shape = [1, 2, 2], flat = [11, 15, 17, 18]\<rparr>, cmeta = ()\<rparr>"
    by code_simp
  have r1: "rows \<lparr>shape = [2, 2, 2], flat = [1, 5, 7, 8, 7, 8, 9, 3::int]\<rparr> =
      [[1, 5, 7, 8], [7, 8, 9, 3]]"
    by code_simp
  have r2: "rows \<lparr>shape = [1, 2, 2], flat = [11, 15, 17, 18::int]\<rparr> = [[11, 15, 17, 18]]"
    by code_simp
  have p1: "?P [1, 5, 7, 8] demo_traj1" and p2: "?P [7, 8, 9, 3] demo_traj1"
    and p3: "?P [11, 15, 17, 18] demo_traj2"
    by code_simp+
  have wf: "wf_array (cdata c)"
    if "t \<in> set (trajectories demo_batch)"
      and "traj_to_contexts demo_lib t (context_window_len demo_model)
             (delay_interval demo_model) = Inr c" for t c
    using that c1 c2 by (auto simp: ts cwl lag wf_array_def)
  have cut: "?P w t"
    if "t \<in> set (trajectories demo_batch)"
      and "traj_to_contexts demo_lib t (context_window_len demo_model)
             (delay_interval demo_model) = Inr c"
      and "w \<in> set (rows (cdata c))" for t c w
  proof -
    from that(1) consider "t = demo_traj1" | "t = demo_traj2"
      by (auto simp: ts)
    then show ?thesis
    proof cases
      case 1
      with that(2) c1 have "cdata c = \<lparr>shape = [2, 2, 2], flat = [1, 5, 7, 8, 7, 8, 9, 3]\<rparr>"
        by (simp add: cwl lag)
      with that(3) r1 have "w = [1, 5, 7, 8] \<or> w = [7, 8, 9, 3]"
        by simp
      with 1 p1 p2 show ?thesis by blast
    next
      case 2
      with that(2) c2 have "cdata c = \<lparr>shape = [1, 2, 2], flat = [11, 15, 17, 18]\<rparr>"
        by (simp add: cwl lag)
      with that(3) r2 have "w = [11, 15, 17, 18]"
        by simp
      with 2 p3 show ?thesis by blast
    qed
  qed
  have inp: "wf_input demo_batch"
    by (simp add: demo_batch_def)
  have ret: "compute_hankel demo_lib demo_model demo_batch = (Inr (), ?s')"
    by code_simp
  have rows: "rows (cdata ?c) = [[1, 5, 7, 8], [7, 8, 9, 3], [11, 15, 17, 18]]"
    by code_simp
  have "\<exists>c cs. data ?s' = ContextsObj c \<and>
      contexts_of_all demo_lib (context_window_len demo_model) (delay_interval demo_model)
        (trajectories demo_batch) = Some cs \<and>
      rows (cdata c) = concat (map (\<lambda>x. rows (cdata x)) cs) \<and>
      (\<forall>w \<in> set (rows (cdata c)). \<exists>t \<in> set (trajectories demo_batch). ?P w t)"
  proof (rule hankel_windows_from_one_trajectory [where P = ?P, OF _ _ inp ret])
    show "wf_array (cdata c)"
      if "t \<in> set (trajectories demo_batch)"
        and "traj_to_contexts demo_lib t (context_window_len demo_model)
               (delay_interval demo_model) = Inr c" for t c
      using that by (rule wf)
    show "?P w t"
      if "t \<in> set (trajectories demo_batch)"
        and "traj_to_contexts demo_lib t (context_window_len demo_model)
               (delay_interval demo_model) = Inr c"
        and "w \<in> set (rows (cdata c))" for t c w
      using that by (rule cut)
  qed
  then obtain c cs where c: "data ?s' = ContextsObj c"
    and cs: "contexts_of_all demo_lib (context_window_len demo_model) (delay_interval demo_model)
        (trajectories demo_batch) = Some cs"
    and eq: "rows (cdata c) = concat (map (\<lambda>x. rows (cdata x)) cs)"
    and all: "\<forall>w \<in> set (rows (cdata c)). \<exists>t \<in> set (trajectories demo_batch). ?P w t"
    by blast
  from c have ceq: "c = ?c" by simp
  from all have "\<forall>w \<in> set [[1, 5, 7, 8], [7, 8, 9, 3], [11, 15, 17, 18]].
      \<exists>t \<in> set [demo_traj1, demo_traj2]. ?P w t"
    unfolding ceq rows ts .
  then have la: "list_all (\<lambda>w. list_ex (\<lambda>t. ?P w t) [demo_traj1, demo_traj2])
      [[1, 5, 7, 8], [7, 8, 9, 3], [11, 15, 17, 18]]"
    unfolding list_all_iff list_ex_iff .
  from cs have cs': "contexts_of_all demo_lib 2 1 [demo_traj1, demo_traj2] = Some cs"
    unfolding ts cwl lag .
  from eq have "[[1, 5, 7, 8], [7, 8, 9, 3], [11, 15, 17, 18]] =
      concat (map (\<lambda>x. rows (cdata x)) cs)"
    unfolding ceq rows by simp
  with cs' have "\<exists>cs. contexts_of_all demo_lib 2 1 [demo_traj1, demo_traj2] = Some cs \<and>
      [[1, 5, 7, 8], [7, 8, 9, 3], [11, 15, 17, 18]] = concat (map (\<lambda>x. rows (cdata x)) cs)"
    by blast
  with la inp ret show ?thesis by blast
qed

section \<open>Input handling\<close>

text \<open>
  C4. With \<open>reseed\<close> given, \<open>predict\<close> raises NotImplementedError and leaves the object
  as it was, whatever the test data and the library: no prediction is computed. With
  \<open>reseed\<close> left as None, prediction goes on with the local \<open>reseed\<close> set to 1, and no
  statement after that reads it.
\<close>

theorem predict_reseed_not_implemented:
  "predict lib s test_data (Some r) = (Inl NotImplementedError, s) \<and>
   predict lib s test_data None =
     predict_body lib s (case test_data of None \<Rightarrow> data s | Some x \<Rightarrow> x) 1 \<and>
   predict_body lib s x k = predict_body lib s x 1"
  by (simp add: predict_def predict_body_def)

theorem predict_reseed_not_implemented_witness:
  "predict demo_lib demo_model (Some demo_batch) (Some 3) = (Inl NotImplementedError, demo_model) \<and>
   predict demo_lib demo_model (Some demo_batch) None = predict_body demo_lib demo_model demo_batch 1"
  using predict_reseed_not_implemented [of demo_lib demo_model "Some demo_batch" 3 demo_batch 1]
  by simp

text \<open>
  C5. The input handling of \<open>compute_hankel\<close> and \<open>predict\<close> preserves behaviour: a 2-D
  array gives the same result and the same object as the array with a leading axis of
  length 1, and a tensor the same as its numpy array. Nothing else is checked or caught:
  an empty batch fails at \<open>trajs[0]\<close> with IndexError, and an exception of the library
  on the first trajectory, or of the conversion of the test data, is passed on as it is.
\<close>

theorem input_normalization_preserves:
  "(ndim x = 2 \<longrightarrow>
      compute_hankel lib s (NdArray x) = compute_hankel lib s (NdArray (newaxis x)) \<and>
      predict lib s (Some (NdArray x)) r = predict lib s (Some (NdArray (newaxis x))) r) \<and>
   compute_hankel lib s (Tensor x) = compute_hankel lib s (NdArray x) \<and>
   predict lib s (Some (Tensor x)) r = predict lib s (Some (NdArray x)) r \<and>
   compute_hankel lib s (PyList []) = (Inl IndexError, s) \<and>
   (py_getitem (normalize_trajs inp) 0 = Inr t0 \<and>
    traj_to_contexts lib t0 (context_window_len s) (delay_interval s) = Inl e \<longrightarrow>
      compute_hankel lib s inp = (Inl e, s)) \<and>
   (to_array inp = Inl e \<longrightarrow> predict lib s (Some inp) None = (Inl e, s))"
proof -
  have a: "compute_hankel lib s (NdArray x) = compute_hankel lib s (NdArray (newaxis x))"
    if "ndim x = 2"
    using that by (simp add: compute_hankel_def hankel_contexts_def ndim_def newaxis_def)
  have b: "predict lib s (Some (NdArray x)) r = predict lib s (Some (NdArray (newaxis x))) r"
    if "ndim x = 2"
    using that by (simp add: predict_def predict_body_def ndim_def newaxis_def split: option.splits)
  have c: "compute_hankel lib s (Tensor x) = compute_hankel lib s (NdArray x)"
    by (simp add: compute_hankel_def hankel_contexts_def)
  have d: "predict lib s (Some (Tensor x)) r = predict lib s (Some (NdArray x)) r"
    by (simp add: predict_def predict_body_def split: option.splits)
  have e: "compute_hankel lib s (PyList []) = (Inl IndexError, s)"
    by (simp add: compute_hankel_def hankel_contexts_def)
  have f: "compute_hankel lib s inp = (Inl e, s)"
    if "py_getitem (normalize_trajs inp) 0 = Inr t0"
      and "traj_to_contexts lib t0 (context_window_len s) (delay_interval s) = Inl e"
    using that by (simp add: compute_hankel_def hankel_contexts_def)
  have g: "predict lib s (Some inp) None = (Inl e, s)" if "to_array inp = Inl e"
    using that by (simp add: predict_def predict_body_def)
  from a b c d e f g show ?thesis by blast
qed

theorem input_normalization_preserves_witness:
  "ndim \<lparr>shape = [3, 1], flat = [1, 5, 7::int]\<rparr> = 2 \<and>
   compute_hankel demo_lib demo_model (NdArray (newaxis \<lparr>shape = [3, 1], flat = [1, 5, 7]\<rparr>)) =
     (Inr (), demo_model\<lparr>data := ContextsObj
        \<lparr>cdata = \<lparr>shape = [2, 2, 1], flat = [1, 5, 5, 7]\<rparr>, cmeta = ()\<rparr>\<rparr>) \<and>
   fst (predict demo_lib demo_model (Some (NdArray (newaxis \<lparr>shape = [3, 1], flat = [1, 5, 7]\<rparr>))) None) =
     Inr \<lparr>shape = [3], flat = [1, 2, 10]\<rparr> \<and>
   traj_to_contexts demo_lib \<lparr>shape = [1, 1], flat = [4]\<rparr> 2 1 = Inl ValueError \<and>
   compute_hankel demo_lib demo_model (PyList [\<lparr>shape = [1, 1], flat = [4]\<rparr>]) =
     (Inl ValueError, demo_model) \<and>
   to_array (PyList [demo_traj1, demo_traj2] :: (int, unit) pydata) = Inl ValueError \<and>
   predict demo_lib demo_model (Some (PyList [demo_traj1, demo_traj2])) None =
     (Inl ValueError, demo_model)"
proof -
  let ?x = "\<lparr>shape = [3, 1], flat = [1, 5, 7::int]\<rparr>"
  let ?short = "\<lparr>shape = [1, 1], flat = [4::int]\<rparr>"
  let ?inp = "PyList [?short] :: (int, unit) pydata"
  let ?ragged = "PyList [demo_traj1, demo_traj2] :: (int, unit) pydata"
  note thm1 = input_normalization_preserves
    [of ?x demo_lib demo_model None ?inp ?short ValueError]
  note thm2 = input_normalization_preserves
    [of ?x demo_lib demo_model None ?ragged ?short ValueError]
  have nd: "ndim ?x = 2"
    by code_simp
  have h: "compute_hankel demo_lib demo_model (NdArray ?x) =
      (Inr (), demo_model\<lparr>data := ContextsObj
        \<lparr>cdata = \<lparr>shape = [2, 2, 1], flat = [1, 5, 5, 7]\<rparr>, cmeta = ()\<rparr>\<rparr>)"
    by code_simp
  have p: "fst (predict demo_lib demo_model (Some (NdArray ?x)) None) =
      Inr \<lparr>shape = [3], flat = [1, 2, 10]\<rparr>"
    by code_simp
  have g0: "py_getitem (normalize_trajs ?inp) 0 = Inr ?short"
    by simp
  have t0: "traj_to_contexts demo_lib ?short (context_window_len demo_model)
      (delay_interval demo_model) = Inl ValueError"
    by code_simp
  have t0': "traj_to_contexts demo_lib ?short 2 1 = Inl ValueError"
    by code_simp
  have ta: "to_array ?ragged = Inl ValueError"
    by code_simp
  from thm1 nd h p g0 t0 have
    "compute_hankel demo_lib demo_model (NdArray (newaxis ?x)) =
      (Inr (), demo_model\<lparr>data := ContextsObj
        \<lparr>cdata = \<lparr>shape = [2, 2, 1], flat = [1, 5, 5, 7]\<rparr>, cmeta = ()\<rparr>\<rparr>)"
    and "fst (predict demo_lib demo_model (Some (NdArray (newaxis ?x))) None) =
      Inr \<lparr>shape = [3], flat = [1, 2, 10]\<rparr>"
    and "compute_hankel demo_lib demo_model ?inp = (Inl ValueError, demo_model)"
    by simp_all
  moreover from thm2 ta have
    "predict demo_lib demo_model (Some ?ragged) None = (Inl ValueError, demo_model)"
    by blast
  ultimately show ?thesis using nd t0' ta by blast
qed

section \<open>\<open>fit\<close> and \<open>predict\<close>\<close>

lemma predict_returns:
  assumes "predict lib s (Some td) None = (Inr out, s')"
  obtains a x k t n rest seed pd1 c pred p' pred3 pd2 where
    "to_array td = Inr a" and "x = (if ndim a = 2 then newaxis a else a)"
    and "shape x = k # t # n # rest"
    and "take_axis1 (n_delays s) x = Inr seed"
    and "set_take_axis1 (n_delays s) (np_zeros (shape x)) seed = Inr pd1"
    and "hankel_contexts lib (context_window_len s) (delay_interval s) (NdArray x) = Inr c"
    and "nk_predict lib (parent s) c = (Inr pred, p')"
    and "np_reshape [int k, int t - int (n_delays s), int n] pred = Inr pred3"
    and "set_drop_axis1 (n_delays s) pd1 pred3 = Inr pd2"
    and "out = squeeze pd2"
    and "s' = s\<lparr>data := ContextsObj c, parent := p'\<rparr>"
proof -
  from assms obtain a where a: "to_array td = Inr a"
    by (auto simp: predict_def predict_body_def split: sum.splits)
  define x where "x = (if ndim a = 2 then newaxis a else a)"
  from assms a x_def obtain seed where seed: "take_axis1 (n_delays s) x = Inr seed"
    by (auto simp: predict_def predict_body_def Let_def split: sum.splits)
  from assms a x_def seed obtain pd1 where
    pd1: "set_take_axis1 (n_delays s) (np_zeros (shape x)) seed = Inr pd1"
    by (auto simp: predict_def predict_body_def Let_def split: sum.splits)
  from assms a x_def seed pd1 obtain c where
    c: "hankel_contexts lib (context_window_len s) (delay_interval s) (NdArray x) = Inr c"
    by (auto simp: predict_def predict_body_def compute_hankel_def Let_def split: sum.splits)
  then have ch: "compute_hankel lib s (NdArray x) = (Inr (), s\<lparr>data := ContextsObj c\<rparr>)"
    by (simp add: compute_hankel_def)
  have body: "predict_body lib s td 1 = (Inr out, s')"
    using assms by (simp add: predict_def)
  have step: "predict_body lib s td 1 =
    (case nk_predict lib (parent s) c of
       (Inl e, p) \<Rightarrow> (Inl e, s\<lparr>data := ContextsObj c, parent := p\<rparr>)
     | (Inr pred, p) \<Rightarrow>
         (case shape x of
            k # t # n # rest \<Rightarrow>
              (case np_reshape [int k, int t - int (n_delays s), int n] pred of
                 Inl e \<Rightarrow> (Inl e, s\<lparr>data := ContextsObj c, parent := p\<rparr>)
               | Inr pred3 \<Rightarrow>
                   (case set_drop_axis1 (n_delays s) pd1 pred3 of
                      Inl e \<Rightarrow> (Inl e, s\<lparr>data := ContextsObj c, parent := p\<rparr>)
                    | Inr pd2 \<Rightarrow> (Inr (squeeze pd2), s\<lparr>data := ContextsObj c, parent := p\<rparr>)))
          | _ \<Rightarrow> (Inl IndexError, s\<lparr>data := ContextsObj c, parent := p\<rparr>)))"
    using a seed pd1 ch unfolding x_def
    by (simp add: predict_body_def Let_def split: prod.split sum.split)
  from body [unfolded step] obtain pred p' where
    pr: "nk_predict lib (parent s) c = (Inr pred, p')"
    by (cases "nk_predict lib (parent s) c") (auto split: sum.splits)
  from body [unfolded step] pr obtain k t n rest where sh: "shape x = k # t # n # rest"
    by (auto split: list.splits)
  from body [unfolded step] pr sh obtain pred3 where
    p3: "np_reshape [int k, int t - int (n_delays s), int n] pred = Inr pred3"
    by (auto split: sum.splits)
  from body [unfolded step] pr sh p3 obtain pd2 where
    pd2: "set_drop_axis1 (n_delays s) pd1 pred3 = Inr pd2"
    by (auto split: sum.splits)
  from body [unfolded step] pr sh p3 pd2 have
    "out = squeeze pd2" and "s' = s\<lparr>data := ContextsObj c, parent := p'\<rparr>"
    by simp_all
  with a x_def sh seed pd1 c pr p3 pd2 that show thesis by blast
qed

lemma hankel_contexts_newaxis:
  "hankel_contexts lib cwl lag (NdArray (if ndim a = 2 then newaxis a else a)) =
   hankel_contexts lib cwl lag (NdArray a)"
  by (simp add: hankel_contexts_def ndim_def newaxis_def)

text \<open>
  C3. \<open>fit(data, lamb)\<close> returns exactly when the Hankel contexts of the data (the stored
  data when the argument is None) can be built, the one call of the inherited \<open>fit\<close> on
  those contexts, made with \<open>tikhonov_reg\<close> set to \<open>lamb\<close> if given and to \<open>self.lamb\<close>
  otherwise, returns, and the products of \<open>A_v\<close> are defined. The object is then the old
  one with \<open>data\<close> the contexts, the parent's attributes as the inherited \<open>fit\<close> left
  them, and \<open>A_v = V.T @ kernel_YX @ U / len(kernel_YX)\<close>; nothing else is computed.
\<close>

theorem fit_delegates_to_parent:
  assumes "context_window_len s = n_delays s + 1"
    and "wf_input (case dat of None \<Rightarrow> data s | Some x \<Rightarrow> x)"
  shows "fit lib s dat lam = (Inr (), s') \<longleftrightarrow>
    (\<exists>c p v k u vk vku.
       hankel_spec lib (n_delays s + 1) (delay_interval s)
         (case dat of None \<Rightarrow> data s | Some x \<Rightarrow> x) = Some c \<and>
       nk_fit lib ((parent s)\<lparr>tikhonov_reg := Some (case lam of None \<Rightarrow> lamb s | Some l \<Rightarrow> l)\<rparr>) c
         = (Inr (), p) \<and>
       nk_V p = Some v \<and> kernel_YX p = Some k \<and> nk_U p = Some u \<and>
       matmul lib (mat_T lib v) k = Inr vk \<and> matmul lib vk u = Inr vku \<and>
       s' = s\<lparr>data := ContextsObj c, parent := p,
               A_v := Some (mat_div lib vku (mat_len lib k))\<rparr>)"
proof -
  let ?d = "case dat of None \<Rightarrow> data s | Some x \<Rightarrow> x"
  let ?reg = "case lam of None \<Rightarrow> lamb s | Some l \<Rightarrow> l"
  let ?p0 = "(parent s)\<lparr>tikhonov_reg := Some ?reg\<rparr>"
  show ?thesis
  proof (cases "hankel_contexts lib (n_delays s + 1) (delay_interval s) ?d")
    case (Inl e)
    then have "hankel_spec lib (n_delays s + 1) (delay_interval s) ?d = None"
      using hankel_contexts_success [OF assms(2), of lib "n_delays s + 1" "delay_interval s"]
      by (cases "hankel_spec lib (n_delays s + 1) (delay_interval s) ?d") auto
    with Inl assms(1) show ?thesis
      by (simp add: fit_def compute_hankel_def)
  next
    case (Inr c)
    then have spec: "hankel_spec lib (n_delays s + 1) (delay_interval s) ?d = Some c"
      by (simp add: hankel_contexts_success [OF assms(2)])
    have "fit lib s dat lam =
        compute_kernel_dmd lib (s\<lparr>data := ContextsObj c\<rparr>) (Some ?reg)"
      using Inr assms(1) by (simp add: fit_def compute_hankel_def)
    also have "\<dots> = (Inr (), s') \<longleftrightarrow>
      (\<exists>p v k u vk vku.
         nk_fit lib ?p0 c = (Inr (), p) \<and>
         nk_V p = Some v \<and> kernel_YX p = Some k \<and> nk_U p = Some u \<and>
         matmul lib (mat_T lib v) k = Inr vk \<and> matmul lib vk u = Inr vku \<and>
         s' = s\<lparr>data := ContextsObj c, parent := p,
                 A_v := Some (mat_div lib vku (mat_len lib k))\<rparr>)"
      by (cases "nk_fit lib ?p0 c")
         (auto simp: compute_kernel_dmd_def Let_def split: sum.splits option.splits)
    finally show ?thesis using spec by simp
  qed
qed

theorem fit_delegates_to_parent_witness:
  "context_window_len demo_model = n_delays demo_model + 1 \<and>
   wf_input (data demo_model) \<and>
   lamb demo_model = 7 \<and>
   fit demo_lib demo_model None None =
     (Inr (), demo_model\<lparr>data := ContextsObj
        \<lparr>cdata = \<lparr>shape = [3, 2, 1], flat = [1, 2, 2, 4, 4, 8]\<rparr>, cmeta = ()\<rparr>,
        parent := \<lparr>tikhonov_reg = Some 7, nk_rank = 10, nk_U = Some 2, nk_V = Some 3,
                   kernel_YX = Some 4, nk_other = ()\<rparr>,
        A_v := Some 24\<rparr>) \<and>
   tikhonov_reg (parent (snd (fit demo_lib demo_model None (Some 5)))) = Some 5"
proof -
  let ?c = "\<lparr>cdata = \<lparr>shape = [3, 2, 1], flat = [1, 2, 2, 4, 4, 8::int]\<rparr>, cmeta = ()\<rparr>"
  let ?p = "\<lparr>tikhonov_reg = Some (7::int), nk_rank = 10, nk_U = Some (2::int), nk_V = Some 3,
             kernel_YX = Some 4, nk_other = ()\<rparr>"
  let ?d = "case None of None \<Rightarrow> data demo_model | Some x \<Rightarrow> x"
  have inv: "context_window_len demo_model = n_delays demo_model + 1"
    by code_simp
  have wf: "wf_input ?d"
    by code_simp
  have l: "lamb demo_model = 7"
    by code_simp
  have spec: "hankel_spec demo_lib (n_delays demo_model + 1) (delay_interval demo_model) ?d
      = Some ?c"
    by code_simp
  have nk: "nk_fit demo_lib ((parent demo_model)\<lparr>tikhonov_reg :=
      Some (case None of None \<Rightarrow> lamb demo_model | Some l \<Rightarrow> l)\<rparr>) ?c = (Inr (), ?p)"
    by code_simp
  have m1: "matmul demo_lib (mat_T demo_lib 3) 4 = Inr 12"
    and m2: "matmul demo_lib 12 2 = Inr 24"
    and m3: "mat_div demo_lib 24 (mat_len demo_lib 4) = 24"
    by code_simp+
  have "\<exists>c p v k u vk vku.
       hankel_spec demo_lib (n_delays demo_model + 1) (delay_interval demo_model) ?d = Some c \<and>
       nk_fit demo_lib ((parent demo_model)\<lparr>tikhonov_reg :=
         Some (case None of None \<Rightarrow> lamb demo_model | Some l \<Rightarrow> l)\<rparr>) c = (Inr (), p) \<and>
       nk_V p = Some v \<and> kernel_YX p = Some k \<and> nk_U p = Some u \<and>
       matmul demo_lib (mat_T demo_lib v) k = Inr vk \<and> matmul demo_lib vk u = Inr vku \<and>
       demo_model\<lparr>data := ContextsObj ?c, parent := ?p, A_v := Some 24\<rparr> =
         demo_model\<lparr>data := ContextsObj c, parent := p,
                     A_v := Some (mat_div demo_lib vku (mat_len demo_lib k))\<rparr>"
    using spec nk m1 m2 m3
    by (intro exI [of _ ?c] exI [of _ ?p] exI [of _ 3] exI [of _ 4] exI [of _ 2]
          exI [of _ 12] exI [of _ 24]) simp
  with fit_delegates_to_parent [OF inv wf, of demo_lib None]
  have "fit demo_lib demo_model None None =
      (Inr (), demo_model\<lparr>data := ContextsObj ?c, parent := ?p, A_v := Some 24\<rparr>)"
    by blast
  moreover have "tikhonov_reg (parent (snd (fit demo_lib demo_model None (Some 5)))) = Some 5"
    by code_simp
  ultimately show ?thesis using inv wf l by simp
qed

text \<open>
  C9. \<open>predict\<close> is not read-only. When it returns, \<open>self.data\<close> holds the Hankel contexts
  of the test data, whatever it held before; the parent's attributes are as the inherited
  \<open>predict\<close> left them and nothing else is written. So \<open>A_v\<close> is unchanged, and \<open>U\<close>,
  \<open>V\<close> and \<open>kernel_YX\<close> are unchanged as long as the inherited \<open>predict\<close> does not write
  them.
\<close>

theorem predict_overwrites_data:
  assumes ret: "predict lib s (Some td) None = (Inr out, s')"
    and arr: "to_array td = Inr a"
    and wf: "ndim a = 2 \<Longrightarrow> wf_array a"
    and keep: "\<And>p c r p'. nk_predict lib p c = (r, p') \<Longrightarrow>
        nk_U p' = nk_U p \<and> nk_V p' = nk_V p \<and> kernel_YX p' = kernel_YX p"
  shows "\<exists>c pred p'.
      hankel_spec lib (context_window_len s) (delay_interval s) (NdArray a) = Some c \<and>
      nk_predict lib (parent s) c = (Inr pred, p') \<and>
      s' = s\<lparr>data := ContextsObj c, parent := p'\<rparr> \<and>
      data s' = ContextsObj c \<and> A_v s' = A_v s \<and>
      nk_U (parent s') = nk_U (parent s) \<and> nk_V (parent s') = nk_V (parent s) \<and>
      kernel_YX (parent s') = kernel_YX (parent s)"
proof -
  from ret obtain a' c pred p' where a': "to_array td = Inr a'"
    and c: "hankel_contexts lib (context_window_len s) (delay_interval s)
        (NdArray (if ndim a' = 2 then newaxis a' else a')) = Inr c"
    and pr: "nk_predict lib (parent s) c = (Inr pred, p')"
    and s': "s' = s\<lparr>data := ContextsObj c, parent := p'\<rparr>"
    by (rule predict_returns) blast
  from a' arr have "a' = a" by simp
  with c have "hankel_contexts lib (context_window_len s) (delay_interval s) (NdArray a) = Inr c"
    by (simp only: hankel_contexts_newaxis)
  moreover have "wf_input (NdArray a :: ('a, 'b) pydata)"
    using wf by auto
  ultimately have "hankel_spec lib (context_window_len s) (delay_interval s) (NdArray a) = Some c"
    by (simp add: hankel_contexts_success)
  with pr s' keep [OF pr] show ?thesis by simp
qed

theorem predict_overwrites_data_witness:
  "data demo_fitted =
     ContextsObj \<lparr>cdata = \<lparr>shape = [3, 2, 1], flat = [1, 2, 2, 4, 4, 8]\<rparr>, cmeta = ()\<rparr> \<and>
   predict demo_lib demo_fitted (Some (NdArray \<lparr>shape = [3, 1], flat = [1, 5, 7]\<rparr>)) None =
     (Inr \<lparr>shape = [3], flat = [1, 2, 10]\<rparr>,
      demo_fitted\<lparr>data := ContextsObj
        \<lparr>cdata = \<lparr>shape = [2, 2, 1], flat = [1, 5, 5, 7]\<rparr>, cmeta = ()\<rparr>\<rparr>) \<and>
   hankel_spec demo_lib 2 1 (NdArray \<lparr>shape = [3, 1], flat = [1, 5, 7]\<rparr>) =
     Some \<lparr>cdata = \<lparr>shape = [2, 2, 1], flat = [1, 5, 5, 7]\<rparr>, cmeta = ()\<rparr> \<and>
   A_v demo_fitted = Some 24 \<and> nk_U (parent demo_fitted) = Some 2 \<and>
   (\<exists>c pred p'.
      hankel_spec demo_lib 2 1 (NdArray \<lparr>shape = [3, 1], flat = [1, 5, 7]\<rparr>) = Some c \<and>
      nk_predict demo_lib (parent demo_fitted) c = (Inr pred, p') \<and>
      data (demo_fitted\<lparr>data := ContextsObj c, parent := p'\<rparr>) = ContextsObj c \<and>
      A_v (demo_fitted\<lparr>data := ContextsObj c, parent := p'\<rparr>) = Some 24 \<and>
      nk_U p' = Some 2)"
proof -
  let ?x = "\<lparr>shape = [3, 1], flat = [1, 5, 7::int]\<rparr>"
  let ?out = "\<lparr>shape = [3], flat = [1, 2, 10::int]\<rparr>"
  let ?c = "\<lparr>cdata = \<lparr>shape = [2, 2, 1], flat = [1, 5, 5, 7::int]\<rparr>, cmeta = ()\<rparr>"
  let ?s' = "demo_fitted\<lparr>data := ContextsObj ?c\<rparr>"
  have before: "data demo_fitted =
      ContextsObj \<lparr>cdata = \<lparr>shape = [3, 2, 1], flat = [1, 2, 2, 4, 4, 8]\<rparr>, cmeta = ()\<rparr>"
    by code_simp
  have ret: "predict demo_lib demo_fitted (Some (NdArray ?x)) None = (Inr ?out, ?s')"
    by code_simp
  have arr: "to_array (NdArray ?x :: (int, unit) pydata) = Inr ?x"
    by simp
  have spec: "hankel_spec demo_lib 2 1 (NdArray ?x) = Some ?c"
    by code_simp
  have cwl: "context_window_len demo_fitted = 2" and lag: "delay_interval demo_fitted = 1"
    and av: "A_v demo_fitted = Some 24" and u: "nk_U (parent demo_fitted) = Some 2"
    by code_simp+
  have "\<exists>c pred p'.
      hankel_spec demo_lib (context_window_len demo_fitted) (delay_interval demo_fitted)
        (NdArray ?x) = Some c \<and>
      nk_predict demo_lib (parent demo_fitted) c = (Inr pred, p') \<and>
      ?s' = demo_fitted\<lparr>data := ContextsObj c, parent := p'\<rparr> \<and>
      data ?s' = ContextsObj c \<and> A_v ?s' = A_v demo_fitted \<and>
      nk_U (parent ?s') = nk_U (parent demo_fitted) \<and>
      nk_V (parent ?s') = nk_V (parent demo_fitted) \<and>
      kernel_YX (parent ?s') = kernel_YX (parent demo_fitted)"
  proof (rule predict_overwrites_data [OF ret arr])
    show "wf_array ?x"
      by code_simp
    show "nk_U p' = nk_U p \<and> nk_V p' = nk_V p \<and> kernel_YX p' = kernel_YX p"
      if "nk_predict demo_lib p c = (r, p')" for p c r p'
      using that by (auto simp: demo_lib_def demo_predict_def split: list.splits)
  qed
  then obtain c pred p' where
    "hankel_spec demo_lib 2 1 (NdArray ?x) = Some c"
    and "nk_predict demo_lib (parent demo_fitted) c = (Inr pred, p')"
    and eq: "?s' = demo_fitted\<lparr>data := ContextsObj c, parent := p'\<rparr>"
    and "A_v ?s' = A_v demo_fitted" and "nk_U (parent ?s') = nk_U (parent demo_fitted)"
    unfolding cwl lag by blast
  then have "\<exists>c pred p'.
      hankel_spec demo_lib 2 1 (NdArray ?x) = Some c \<and>
      nk_predict demo_lib (parent demo_fitted) c = (Inr pred, p') \<and>
      data (demo_fitted\<lparr>data := ContextsObj c, parent := p'\<rparr>) = ContextsObj c \<and>
      A_v (demo_fitted\<lparr>data := ContextsObj c, parent := p'\<rparr>) = Some 24 \<and>
      nk_U p' = Some 2"
    using av u arg_cong [OF eq, of data] arg_cong [OF eq, of parent]
    by (intro exI [of _ c] exI [of _ pred] exI [of _ p']) simp
  with before ret spec av u show ?thesis by blast
qed

lemma predict_shape:
  assumes "predict lib s (Some td) None = (Inr out, s')" and "to_array td = Inr a"
  shows "shape out = filter (\<lambda>d. d \<noteq> 1) (shape (if ndim a = 2 then newaxis a else a))"
proof -
  from assms(1) obtain a' x seed pd1 pred3 pd2 where a': "to_array td = Inr a'"
    and x: "x = (if ndim a' = 2 then newaxis a' else a')"
    and pd1: "set_take_axis1 (n_delays s) (np_zeros (shape x)) seed = Inr pd1"
    and pd2: "set_drop_axis1 (n_delays s) pd1 pred3 = Inr pd2"
    and out: "out = squeeze pd2"
    by (rule predict_returns) blast
  from pd1 have "shape pd1 = shape x"
    by (auto simp: set_take_axis1_def np_zeros_def split: list.splits sum.splits)
  moreover from pd2 have "shape pd2 = shape pd1"
    by (auto simp: set_drop_axis1_def split: list.splits sum.splits)
  ultimately show ?thesis using out a' x assms(2) by (simp add: squeeze_def)
qed

text \<open>
  C7. The docstring of \<open>predict\<close> promises predictions of the shape of \<open>test_data\<close>, but
  \<open>predict\<close> returns \<open>pred_data.squeeze()\<close>: a batch of one trajectory, of shape (1, 3, 2),
  comes back with shape (3, 2), and a trajectory of one-dimensional samples, of shape
  (3, 1), with shape (3).
\<close>

theorem predict_squeezes_unit_axes:
  "fst (predict demo_lib demo_fitted
          (Some (NdArray \<lparr>shape = [1, 3, 2], flat = [1, 5, 7, 8, 9, 3]\<rparr>)) None) =
     Inr \<lparr>shape = [3, 2], flat = [1, 5, 2, 10, 14, 16]\<rparr> \<and>
   fst (predict demo_lib demo_fitted
          (Some (NdArray \<lparr>shape = [3, 1], flat = [1, 5, 7]\<rparr>)) None) =
     Inr \<lparr>shape = [3], flat = [1, 2, 10]\<rparr>"
  by code_simp

section \<open>Slices of well-formed arrays\<close>

lemma concat_chunks: "length xs = k * sz \<Longrightarrow> concat (chunks k sz xs) = xs"
proof (induction k arbitrary: xs)
  case 0
  then show ?case by simp
next
  case (Suc k)
  then have "length (drop sz xs) = k * sz" by simp
  from Suc.IH [OF this] show ?case by simp
qed

lemma length_concat_const:
  "\<forall>r \<in> set rs. length r = sz \<Longrightarrow> length (concat rs) = length rs * sz"
  by (induction rs) auto

lemma rows_wf:
  assumes "wf_array a" and "shape a = k # ds"
  shows "length (rows a) = k"
    and "\<And>r. r \<in> set (rows a) \<Longrightarrow> length r = prod_list ds"
    and "concat (rows a) = flat a"
proof -
  from assms have len: "length (flat a) = k * prod_list ds"
    by (simp add: wf_array_def)
  from assms(2) have rows: "rows a = chunks k (prod_list ds) (flat a)"
    by (simp add: rows_def)
  show "length (rows a) = k"
    by (simp add: rows length_chunks)
  show "length r = prod_list ds" if "r \<in> set (rows a)" for r
    using that len chunks_lengths [of k "prod_list ds" "flat a" r] by (simp add: rows)
  show "concat (rows a) = flat a"
    by (simp add: rows concat_chunks [OF len])
qed

lemma rows_of_concat:
  assumes "shape a = k # ds" and "flat a = concat rs" and "length rs = k"
    and "\<forall>r \<in> set rs. length r = prod_list ds"
  shows "rows a = rs" and "wf_array a"
proof -
  from assms show "rows a = rs"
    using chunks_concat [of rs "prod_list ds"] by (simp add: rows_def)
  from assms show "wf_array a"
    using length_concat_const [of rs "prod_list ds"] by (simp add: wf_array_def)
qed

lemma take_axis1_rows:
  assumes "wf_array a" and "shape a = k # t # rest"
  obtains s where "take_axis1 n a = Inr s" and "shape s = k # min n t # rest"
    and "wf_array s" and "rows s = map (take (min n t * prod_list rest)) (rows a)"
proof -
  let ?B = "prod_list rest"
  let ?s = "\<lparr>shape = k # min n t # rest,
             flat = concat (map (take (min n t * ?B)) (rows a))\<rparr>"
  have s: "take_axis1 n a = Inr ?s"
    using assms(2) by (simp add: take_axis1_def)
  have len: "length (rows a) = k" and each: "\<And>r. r \<in> set (rows a) \<Longrightarrow> length r = t * ?B"
    using rows_wf [OF assms] by simp_all
  have "\<forall>r \<in> set (map (take (min n t * ?B)) (rows a)). length r = prod_list (min n t # rest)"
    using each by (auto simp: min_def)
  from rows_of_concat [of ?s k "min n t # rest", OF _ _ _ this] len
  have "rows ?s = map (take (min n t * ?B)) (rows a)" and "wf_array ?s"
    by simp_all
  with s that show thesis by simp
qed

lemma drop_axis1_rows:
  assumes "wf_array a" and "shape a = k # t # rest"
  obtains s where "drop_axis1 n a = Inr s" and "shape s = k # (t - min n t) # rest"
    and "wf_array s" and "rows s = map (drop (min n t * prod_list rest)) (rows a)"
proof -
  let ?B = "prod_list rest"
  let ?s = "\<lparr>shape = k # (t - min n t) # rest,
             flat = concat (map (drop (min n t * ?B)) (rows a))\<rparr>"
  have s: "drop_axis1 n a = Inr ?s"
    using assms(2) by (simp add: drop_axis1_def)
  have len: "length (rows a) = k" and each: "\<And>r. r \<in> set (rows a) \<Longrightarrow> length r = t * ?B"
    using rows_wf [OF assms] by simp_all
  have "\<forall>r \<in> set (map (drop (min n t * ?B)) (rows a)).
      length r = prod_list ((t - min n t) # rest)"
    using each by (auto simp: diff_mult_distrib)
  from rows_of_concat [of ?s k "(t - min n t) # rest", OF _ _ _ this] len
  have "rows ?s = map (drop (min n t * ?B)) (rows a)" and "wf_array ?s"
    by simp_all
  with s that show thesis by simp
qed

lemma set_take_axis1_rows:
  assumes "wf_array tgt" and "shape tgt = k # t # rest"
    and "wf_array v" and "shape v = k # min n t # rest"
  obtains pd where "set_take_axis1 n tgt v = Inr pd" and "shape pd = k # t # rest"
    and "wf_array pd"
    and "rows pd = map2 (\<lambda>r x. x @ drop (min n t * prod_list rest) r) (rows tgt) (rows v)"
proof -
  let ?B = "prod_list rest"
  let ?rs = "map2 (\<lambda>r x. x @ drop (min n t * ?B) r) (rows tgt) (rows v)"
  let ?pd = "tgt\<lparr>flat := concat ?rs\<rparr>"
  have pd: "set_take_axis1 n tgt v = Inr ?pd"
    using assms(2,4) by (simp add: set_take_axis1_def broadcast_to_def)
  have lt: "length (rows tgt) = k" and et: "\<And>r. r \<in> set (rows tgt) \<Longrightarrow> length r = t * ?B"
    using rows_wf [OF assms(1,2)] by simp_all
  have lv: "length (rows v) = k"
    and ev: "\<And>r. r \<in> set (rows v) \<Longrightarrow> length r = min n t * ?B"
    using rows_wf [OF assms(3,4)] by simp_all
  have "\<forall>r \<in> set ?rs. length r = prod_list (t # rest)"
  proof
    fix r assume "r \<in> set ?rs"
    then obtain a b where "a \<in> set (rows tgt)" "b \<in> set (rows v)"
      and r: "r = b @ drop (min n t * ?B) a"
      by (auto dest: set_zip_leftD set_zip_rightD)
    with et ev have "length r = min n t * ?B + (t * ?B - min n t * ?B)"
      by simp
    also have "\<dots> = t * ?B"
      by (simp add: min_def)
    finally show "length r = prod_list (t # rest)" by simp
  qed
  from rows_of_concat [of ?pd k "t # rest" ?rs, OF _ _ _ this] lt lv assms(2)
  have "rows ?pd = ?rs" and "wf_array ?pd"
    by simp_all
  with pd assms(2) that show thesis by simp
qed

lemma set_drop_axis1_rows:
  assumes "wf_array tgt" and "shape tgt = k # t # rest"
    and "wf_array v" and "shape v = k # (t - min n t) # rest"
  obtains pd where "set_drop_axis1 n tgt v = Inr pd" and "shape pd = k # t # rest"
    and "wf_array pd"
    and "rows pd = map2 (\<lambda>r x. take (min n t * prod_list rest) r @ x) (rows tgt) (rows v)"
proof -
  let ?B = "prod_list rest"
  let ?rs = "map2 (\<lambda>r x. take (min n t * ?B) r @ x) (rows tgt) (rows v)"
  let ?pd = "tgt\<lparr>flat := concat ?rs\<rparr>"
  have pd: "set_drop_axis1 n tgt v = Inr ?pd"
    using assms(2,4) by (simp add: set_drop_axis1_def broadcast_to_def)
  have lt: "length (rows tgt) = k" and et: "\<And>r. r \<in> set (rows tgt) \<Longrightarrow> length r = t * ?B"
    using rows_wf [OF assms(1,2)] by simp_all
  have lv: "length (rows v) = k"
    and ev: "\<And>r. r \<in> set (rows v) \<Longrightarrow> length r = (t - min n t) * ?B"
    using rows_wf [OF assms(3,4)] by simp_all
  have "\<forall>r \<in> set ?rs. length r = prod_list (t # rest)"
  proof
    fix r assume "r \<in> set ?rs"
    then obtain a b where "a \<in> set (rows tgt)" "b \<in> set (rows v)"
      and r: "r = take (min n t * ?B) a @ b"
      by (auto dest: set_zip_leftD set_zip_rightD)
    with et ev have "length r = min (t * ?B) (min n t * ?B) + (t - min n t) * ?B"
      by simp
    also have "min (t * ?B) (min n t * ?B) = min n t * ?B"
      by (simp add: min_absorb2 mult_le_mono1)
    also have "min n t * ?B + (t - min n t) * ?B = (min n t + (t - min n t)) * ?B"
      by (simp only: add_mult_distrib)
    also have "\<dots> = t * ?B"
      by simp
    finally show "length r = prod_list (t # rest)" by simp
  qed
  from rows_of_concat [of ?pd k "t # rest" ?rs, OF _ _ _ this] lt lv assms(2)
  have "rows ?pd = ?rs" and "wf_array ?pd"
    by simp_all
  with pd assms(2) that show thesis by simp
qed

lemma array_eqI:
  assumes "shape a = shape b" and "shape a = k # ds" and "wf_array a" and "wf_array b"
    and "rows a = rows b"
  shows "a = b"
proof -
  have "flat a = concat (rows a)" using rows_wf(3) [OF assms(3,2)] by simp
  moreover from assms(1,2) have "shape b = k # ds" by simp
  from rows_wf(3) [OF assms(4) this] have "flat b = concat (rows b)" by simp
  ultimately have "flat a = flat b" using assms(5) by simp
  with assms(1) show ?thesis by simp
qed

lemma wf_np_zeros: "wf_array (np_zeros sh)"
  by (simp add: wf_array_def np_zeros_def)

section \<open>\<open>predict\<close> predicts one step ahead from the test data\<close>

lemma take_set_drop_rows:
  "length rs = length vs \<Longrightarrow> \<forall>r \<in> set rs. a \<le> length r \<Longrightarrow>
   map (take a) (map2 (\<lambda>r x. take a r @ x) rs vs) = map (take a) rs"
  by (induction rs vs rule: list_induct2) auto

lemma drop_set_drop_rows:
  "length rs = length vs \<Longrightarrow> \<forall>r \<in> set rs. a \<le> length r \<Longrightarrow>
   map (drop a) (map2 (\<lambda>r x. take a r @ x) rs vs) = vs"
  by (induction rs vs rule: list_induct2) auto

lemma take_set_take_rows:
  "length rs = length vs \<Longrightarrow> \<forall>x \<in> set vs. length x = a \<Longrightarrow>
   map (take a) (map2 (\<lambda>r x. x @ drop a r) rs vs) = vs"
  by (induction rs vs rule: list_induct2) auto

lemma pred_data_slices:
  assumes wfx: "wf_array x" and shx: "shape x = [K, T, N]" and le: "nd \<le> T"
    and wfp: "wf_array pred3" and shp: "shape pred3 = [K, T - nd, N]"
    and seed: "take_axis1 nd x = Inr seed"
    and pd1: "set_take_axis1 nd (np_zeros (shape x)) seed = Inr pd1"
    and pd2: "set_drop_axis1 nd pd1 pred3 = Inr pd2"
  shows "shape pd2 = [K, T, N]" and "wf_array pd2"
    and "take_axis1 nd pd2 = Inr seed" and "drop_axis1 nd pd2 = Inr pred3"
proof -
  let ?B = "prod_list [N]"
  from le have m: "min nd T = nd" by simp
  obtain s where s: "take_axis1 nd x = Inr s" and shs: "shape s = [K, nd, N]"
    and wfs: "wf_array s" and rs: "rows s = map (take (nd * ?B)) (rows x)"
    using take_axis1_rows [OF wfx shx, of nd] m by auto
  from s seed have [simp]: "s = seed" by simp
  have shz: "shape (np_zeros [K, T, N] :: 'a ndarray) = [K, T, N]"
    by (simp add: np_zeros_def)
  obtain p1 where p1: "set_take_axis1 nd (np_zeros [K, T, N]) seed = Inr p1"
    and shp1: "shape p1 = [K, T, N]" and wfp1: "wf_array p1"
    and rp1: "rows p1 = map2 (\<lambda>r x. x @ drop (nd * ?B) r) (rows (np_zeros [K, T, N])) (rows seed)"
    using set_take_axis1_rows [OF wf_np_zeros shz, of seed nd] wfs shs m by auto
  from p1 pd1 shx have [simp]: "p1 = pd1" by simp
  obtain p2 where p2: "set_drop_axis1 nd pd1 pred3 = Inr p2"
    and shp2: "shape p2 = [K, T, N]" and wfp2: "wf_array p2"
    and rp2: "rows p2 = map2 (\<lambda>r x. take (nd * ?B) r @ x) (rows pd1) (rows pred3)"
    using set_drop_axis1_rows [of pd1 K T "[N]" pred3 nd] wfp1 shp1 wfp shp m by auto
  from p2 pd2 have [simp]: "p2 = pd2" by simp
  from shp2 show "shape pd2 = [K, T, N]" by simp
  from wfp2 show "wf_array pd2" by simp
  have lx: "length (rows x) = K" and ex: "\<And>r. r \<in> set (rows x) \<Longrightarrow> length r = T * ?B"
    using rows_wf [OF wfx shx] by simp_all
  have lz: "length (rows (np_zeros [K, T, N] :: 'a ndarray)) = K"
    using rows_wf(1) [OF wf_np_zeros shz] by simp
  have l1: "length (rows pd1) = K" and e1: "\<And>r. r \<in> set (rows pd1) \<Longrightarrow> length r = T * ?B"
    using rows_wf [of pd1 K "[T, N]"] wfp1 shp1 by simp_all
  have lp: "length (rows pred3) = K"
    using rows_wf(1) [OF wfp shp] by simp
  have ls: "length (rows seed) = K" and es: "\<And>r. r \<in> set (rows seed) \<Longrightarrow> length r = nd * ?B"
    using rows_wf [of seed K "[nd, N]"] wfs shs by simp_all
  have ge: "\<forall>r \<in> set (rows pd1). nd * ?B \<le> length r"
    using e1 le by (simp add: mult_le_mono1)
  obtain tk where tk: "take_axis1 nd pd2 = Inr tk" and shtk: "shape tk = [K, nd, N]"
    and wftk: "wf_array tk" and rtk: "rows tk = map (take (nd * ?B)) (rows pd2)"
    using take_axis1_rows [of pd2 K T "[N]" nd] wfp2 shp2 m by auto
  have "rows tk = map (take (nd * ?B)) (rows pd1)"
    using rtk rp2 take_set_drop_rows [of "rows pd1" "rows pred3" "nd * ?B"] l1 lp ge by simp
  also have "\<dots> = rows seed"
    using rp1 take_set_take_rows [of "rows (np_zeros [K, T, N])" "rows seed" "nd * ?B"] lz ls es
    by simp
  finally have "rows tk = rows seed" .
  with array_eqI [of tk seed K "[nd, N]"] shtk shs wftk wfs have "tk = seed" by simp
  with tk show "take_axis1 nd pd2 = Inr seed" by simp
  obtain dr where dr: "drop_axis1 nd pd2 = Inr dr" and shdr: "shape dr = [K, T - nd, N]"
    and wfdr: "wf_array dr" and rdr: "rows dr = map (drop (nd * ?B)) (rows pd2)"
    using drop_axis1_rows [of pd2 K T "[N]" nd] wfp2 shp2 m by auto
  have "rows dr = rows pred3"
    using rdr rp2 drop_set_drop_rows [of "rows pd1" "rows pred3" "nd * ?B"] l1 lp ge by simp
  with array_eqI [of dr pred3 K "[T - nd, N]"] shdr shp wfdr wfp have "dr = pred3" by simp
  with dr show "drop_axis1 nd pd2 = Inr pred3" by simp
qed

lemma np_reshape_3d:
  assumes "np_reshape [int K, int T - int nd, int N] pred = Inr pred3" and "nd \<le> T"
    and "wf_array pred"
  shows "shape pred3 = [K, T - nd, N]" and "flat pred3 = flat pred" and "wf_array pred3"
    and "prod_list (shape pred) = K * (T - nd) * N"
proof -
  from assms(2) have neg: "filter (\<lambda>d. d < 0) [int K, int T - int nd, int N] = []"
    by simp
  from assms(2) have nn: "filter (\<lambda>d. 0 \<le> d) [int K, int T - int nd, int N] =
      [int K, int T - int nd, int N]"
    by simp
  have nat: "nat (int T - int nd) = T - nd"
    by simp
  from assms(1) have sz: "prod_list (shape pred) = K * (T - nd) * N"
    and p3: "pred3 = \<lparr>shape = [K, T - nd, N], flat = flat pred\<rparr>"
    unfolding np_reshape_def Let_def neg nn by (auto simp: nat split: if_splits)
  from p3 show "shape pred3 = [K, T - nd, N]" and "flat pred3 = flat pred"
    by simp_all
  from p3 sz assms(3) show "wf_array pred3"
    by (simp add: wf_array_def)
  from sz show "prod_list (shape pred) = K * (T - nd) * N" .
qed

lemma wf_newaxis: "wf_array (newaxis a) = wf_array a"
  by (simp add: wf_array_def newaxis_def)

lemma predict_pred_data:
  assumes ret: "predict lib s (Some td) None = (Inr out, s')"
    and arr: "to_array td = Inr a" and wfa: "wf_array a"
    and x: "x = (if ndim a = 2 then newaxis a else a)"
    and sh: "shape x = [K, T, N]"
    and le: "n_delays s \<le> T"
    and wfp: "\<And>c r p'.
        hankel_contexts lib (context_window_len s) (delay_interval s) (NdArray x) = Inr c \<Longrightarrow>
        nk_predict lib (parent s) c = (Inr r, p') \<Longrightarrow> wf_array r"
  obtains c pred p' pred3 pd where
    "hankel_contexts lib (context_window_len s) (delay_interval s) (NdArray x) = Inr c"
    and "nk_predict lib (parent s) c = (Inr pred, p')"
    and "np_reshape [int K, int T - int (n_delays s), int N] pred = Inr pred3"
    and "prod_list (shape pred) = K * (T - n_delays s) * N"
    and "out = squeeze pd" and "shape pd = [K, T, N]" and "wf_array pd"
    and "take_axis1 (n_delays s) pd = take_axis1 (n_delays s) x"
    and "drop_axis1 (n_delays s) pd = Inr pred3"
proof -
  from ret obtain a' x' k t n rest seed pd1 c pred p' pred3 pd2 where
    a': "to_array td = Inr a'" and x': "x' = (if ndim a' = 2 then newaxis a' else a')"
    and sh': "shape x' = k # t # n # rest"
    and seed: "take_axis1 (n_delays s) x' = Inr seed"
    and pd1: "set_take_axis1 (n_delays s) (np_zeros (shape x')) seed = Inr pd1"
    and c: "hankel_contexts lib (context_window_len s) (delay_interval s) (NdArray x') = Inr c"
    and pr: "nk_predict lib (parent s) c = (Inr pred, p')"
    and p3: "np_reshape [int k, int t - int (n_delays s), int n] pred = Inr pred3"
    and pd2: "set_drop_axis1 (n_delays s) pd1 pred3 = Inr pd2"
    and out: "out = squeeze pd2"
    by (rule predict_returns) blast
  from a' arr x x' have xx: "x' = x" by simp
  with sh sh' have k: "k = K" "t = T" "n = N" "rest = []" by simp_all
  from wfa x have wfx: "wf_array x" by (simp add: wf_newaxis)
  from c pr xx have wfpred: "wf_array pred" by (auto intro: wfp)
  note r = np_reshape_3d [OF p3 [unfolded k] le wfpred]
  note sl = pred_data_slices [OF wfx sh le r(3) r(1) seed [unfolded xx] pd1 [unfolded xx]
      pd2]
  from that [OF c [unfolded xx] pr p3 [unfolded k] r(4) out sl(1) sl(2)] sl(3) sl(4) seed xx
  show thesis by simp
qed




section \<open>The first time steps of the predictions\<close>

lemma sum_list_const: "\<forall>x \<in> set xs. f x = w \<Longrightarrow> sum_list (map f xs) = length xs * w"
  by (induction xs) auto

lemma concat_axis0_shape:
  assumes "\<forall>x \<in> set xs. shape x = w # ds" and "concat_axis0 xs = Inr d"
  shows "shape d = (length xs * w) # ds"
proof (cases xs rule: concat_axis0.cases)
  case 1
  with assms show ?thesis by simp
next
  case (2 a)
  with assms show ?thesis by simp
next
  case (3 a b bs)
  with assms(2) have "shape d = sum_list (map (\<lambda>x. hd (shape x)) xs) # tl (shape a)"
    by (auto split: if_splits)
  moreover have "sum_list (map (\<lambda>x. hd (shape x)) xs) = length xs * w"
    using assms(1) by (intro sum_list_const) simp
  moreover have "tl (shape a) = ds"
    using assms(1) 3 by simp
  ultimately show ?thesis by simp
qed

lemma length_array_entries: "shape x = k # ds \<Longrightarrow> length (array_entries x) = k"
  by (simp add: array_entries_def rows_def length_chunks)

text \<open>
  Let the library behave as documented on the calls \<open>predict\<close> makes: the contexts of a
  trajectory of \<open>T\<close> samples exist only for a time lag of at least 1 and
  \<open>n_delays * delay_interval < T\<close>, and hold one window per start position, so
  \<open>T - n_delays * delay_interval\<close> windows of \<open>n_delays + 1\<close> samples; the inherited
  \<open>predict\<close> returns one sample per window. Then \<open>predict\<close> returns only when the
  reshape to (K, T - n_delays, N) fits: with \<open>delay_interval = 1\<close>, without delays or on
  samples without features. With \<open>delay_interval \<ge> 2\<close> and at least one delay every
  call ends with an exception.
\<close>

lemma predict_returns_only_at_unit_lag:
  assumes ret: "predict lib s (Some td) None = (Inr out, s')"
    and inv: "context_window_len s = n_delays s + 1"
    and arr: "to_array td = Inr a" and wfa: "wf_array a"
    and x: "x = (if ndim a = 2 then newaxis a else a)"
    and sh: "shape x = [K, T, N]"
    and win: "\<And>t c. t \<in> set (array_entries x) \<Longrightarrow>
        traj_to_contexts lib t (n_delays s + 1) (delay_interval s) = Inr c \<Longrightarrow>
        1 \<le> delay_interval s \<and> n_delays s * delay_interval s < T \<and>
        shape (cdata c) = [T - n_delays s * delay_interval s, n_delays s + 1, N]"
    and one: "\<And>c r p' C L.
        hankel_spec lib (n_delays s + 1) (delay_interval s) (NdArray x) = Some c \<Longrightarrow>
        nk_predict lib (parent s) c = (Inr r, p') \<Longrightarrow> shape (cdata c) = [C, L, N] \<Longrightarrow>
        wf_array r \<and> prod_list (shape r) = C * N"
  shows "N = 0 \<or> n_delays s = 0 \<or> delay_interval s = 1"
proof -
  let ?nd = "n_delays s" and ?lag = "delay_interval s"
  let ?W = "T - ?nd * ?lag"
  from sh have wfi: "wf_input (NdArray x :: ('a, 'b) pydata)"
    by (simp add: ndim_def)
  note eq = hankel_contexts_success [OF wfi, of lib "?nd + 1" ?lag]
  from ret obtain c0 pred0 p0 where
    c0: "hankel_contexts lib (?nd + 1) ?lag (NdArray x) = Inr c0"
    and pr0: "nk_predict lib (parent s) c0 = (Inr pred0, p0)"
    using arr x inv by (elim predict_returns) auto
  from c0 eq have spec: "hankel_spec lib (?nd + 1) ?lag (NdArray x) = Some c0"
    by blast
  from sh have tr: "trajectories (NdArray x :: ('a, 'b) pydata) = array_entries x"
    by (simp add: ndim_def)
  from spec tr obtain cs d where cs: "contexts_of_all lib (?nd + 1) ?lag (array_entries x) = Some cs"
    and d: "concat_axis0 (map cdata cs) = Inr d" and cd: "cdata c0 = d"
    by (auto simp: hankel_spec_def split: option.splits sum.splits)
  from contexts_of_all_nth [OF cs] length_array_entries [OF sh]
  have len: "length cs = K"
    and nth: "\<And>i. i < K \<Longrightarrow>
      traj_to_contexts lib (array_entries x ! i) (?nd + 1) ?lag = Inr (cs ! i)"
    by simp_all
  from d have "cs \<noteq> []" by auto
  with len have K: "0 < K" by auto
  have ent: "array_entries x ! i \<in> set (array_entries x)" if "i < K" for i
    using that length_array_entries [OF sh] by simp
  from win [OF ent [OF K] nth [OF K]] have lag: "1 \<le> ?lag" and lt: "?nd * ?lag < T"
    by simp_all
  from lag have "?nd * 1 \<le> ?nd * ?lag" by (rule mult_le_mono2)
  with lt have le: "?nd \<le> T" and lt': "?nd < T" by linarith+
  have "\<forall>y \<in> set (map cdata cs). shape y = ?W # [?nd + 1, N]"
  proof
    fix y assume "y \<in> set (map cdata cs)"
    then obtain i where i: "i < K" and y: "y = cdata (cs ! i)"
      using len by (auto simp: in_set_conv_nth)
    from win [OF ent [OF i] nth [OF i]] y show "shape y = ?W # [?nd + 1, N]"
      by simp
  qed
  from concat_axis0_shape [OF this d] len cd
  have shc: "shape (cdata c0) = [K * ?W, ?nd + 1, N]"
    by simp
  from one [OF spec pr0 shc] have wf0: "wf_array pred0"
    and sz0: "prod_list (shape pred0) = K * ?W * N"
    by simp_all
  have wfp: "wf_array r"
    if "hankel_contexts lib (context_window_len s) ?lag (NdArray x) = Inr c"
      and "nk_predict lib (parent s) c = (Inr r, p')" for c r p'
    using that c0 pr0 wf0 inv by simp
  from ret arr wfa x sh le wfp obtain c pred p' pd where
    c: "hankel_contexts lib (context_window_len s) ?lag (NdArray x) = Inr c"
    and pr: "nk_predict lib (parent s) c = (Inr pred, p')"
    and sz: "prod_list (shape pred) = K * (T - ?nd) * N"
    and out: "out = squeeze pd" and shpd: "shape pd = [K, T, N]"
    and hd: "take_axis1 ?nd pd = take_axis1 ?nd x"
    by (rule predict_pred_data)
  from c c0 pr pr0 inv have peq: "pred = pred0" by simp
  have "K * (T - ?nd) * N = K * ?W * N"
    by (rule trans [OF sym [OF sz [unfolded peq]] sz0])
  then have "K * ((T - ?nd) * N) = K * (?W * N)" by (simp only: mult.assoc)
  with K have "(T - ?nd) * N = ?W * N" by simp
  then have cases: "N = 0 \<or> T - ?nd = ?W" by auto
  show ?thesis
  proof (cases "N = 0")
    case True
    then show ?thesis by simp
  next
    case False
    with cases have "T - ?nd = T - ?nd * ?lag" by simp
    with lt lt' have "?nd * ?lag = ?nd" by linarith
    then show ?thesis by simp
  qed
qed

text \<open>
  C8. The docstring of \<open>predict\<close> promises that the first
  \<open>(n_delays - 1) * delay_interval + 1\<close> time steps of the predictions are those of the test
  data. The code does not keep that promise for \<open>delay_interval = 2\<close>: with two delays the
  count is 3, but \<open>pred_data[:, 0:n_delays] = test_data[:, 0:n_delays]\<close> copies 2 time
  steps of the trajectory 1, ..., 6 and leaves the third at 0, and the call then ends with
  ValueError at the reshape, since the 2 windows of the trajectory give 2 predictions
  where \<open>6 - 2 = 4\<close> are expected. No predictions are returned.
\<close>

theorem predict_copies_n_delays_steps_and_raises:
  "n_delays demo_lagged = 2 \<and> delay_interval demo_lagged = 2 \<and>
   nat ((int (n_delays demo_lagged) - 1) * int (delay_interval demo_lagged) + 1) = 3 \<and>
   fst (fit demo_lib demo_lagged None None) = Inr () \<and>
   take_axis1 (n_delays demo_lagged) \<lparr>shape = [1, 6, 1], flat = [1, 2, 3, 4, 5, 6::int]\<rparr> =
     Inr \<lparr>shape = [1, 2, 1], flat = [1, 2]\<rparr> \<and>
   set_take_axis1 (n_delays demo_lagged) (np_zeros [1, 6, 1])
       \<lparr>shape = [1, 2, 1], flat = [1, 2::int]\<rparr> =
     Inr \<lparr>shape = [1, 6, 1], flat = [1, 2, 0, 0, 0, 0]\<rparr> \<and>
   predict demo_lib (snd (fit demo_lib demo_lagged None None))
       (Some (NdArray \<lparr>shape = [6, 1], flat = [1, 2, 3, 4, 5, 6]\<rparr>)) None =
     (Inl ValueError,
      (snd (fit demo_lib demo_lagged None None))\<lparr>data := ContextsObj
         \<lparr>cdata = \<lparr>shape = [2, 3, 1], flat = [1, 3, 5, 2, 4, 6]\<rparr>, cmeta = ()\<rparr>\<rparr>)"
  by code_simp

section \<open>The settings stay as \<open>__init__\<close> made them\<close>

lemma compute_hankel_keeps_settings:
  "compute_hankel lib s inp = (r, s') \<Longrightarrow>
   n_delays s' = n_delays s \<and> context_window_len s' = context_window_len s \<and>
   delay_interval s' = delay_interval s \<and> lamb s' = lamb s"
  by (auto simp: compute_hankel_def split: sum.splits)

lemma compute_kernel_dmd_keeps_settings:
  "compute_kernel_dmd lib s lam = (r, s') \<Longrightarrow>
   n_delays s' = n_delays s \<and> context_window_len s' = context_window_len s \<and>
   delay_interval s' = delay_interval s \<and> lamb s' = lamb s"
  by (auto simp: compute_kernel_dmd_def Let_def
      split: pydata.splits prod.splits sum.splits option.splits)

lemma fit_keeps_settings:
  assumes "fit lib s dat lam = (r, s')"
  shows "n_delays s' = n_delays s \<and> context_window_len s' = context_window_len s \<and>
   delay_interval s' = delay_interval s \<and> lamb s' = lamb s"
proof -
  let ?d = "case dat of None \<Rightarrow> data s | Some x \<Rightarrow> x"
  obtain r1 s1 where h: "compute_hankel lib s ?d = (r1, s1)"
    by (cases "compute_hankel lib s ?d")
  note k1 = compute_hankel_keeps_settings [OF h]
  show ?thesis
  proof (cases r1)
    case (Inl e)
    with assms h k1 show ?thesis by (simp add: fit_def)
  next
    case (Inr u)
    with assms h have "compute_kernel_dmd lib s1
        (Some (case lam of None \<Rightarrow> lamb s | Some x \<Rightarrow> x)) = (r, s')"
      by (simp add: fit_def)
    from compute_kernel_dmd_keeps_settings [OF this] k1 show ?thesis by simp
  qed
qed

end
